theory Spec2Isabelle
  imports Main "HOL-Library.Char_ord" "HOL-Library.List_Lexorder"
begin

section \<open>Data model\<close>

text \<open>
  The program (\<^verbatim>\<open>wos-data-prep/read.py\<close>) works on pandas data frames whose cells
  are Python strings or the missing-value sentinel. A Python \<^verbatim>\<open>str\<close> is modelled as
  a HOL \<open>string\<close> holding its UTF-8 code units: concatenation and splitting at the ASCII
  space or tab are the same on both, and the only length test of the source
  (\<^verbatim>\<open>len > 1\<close> together with a match of two ASCII characters) has the same outcome.

  A data frame is kept column by column, as pandas does: an ordered list of named
  columns over a positional index of \<open>nrows\<close> rows.
\<close>

datatype cell = Str string | NaN

record dataframe =
  nrows :: nat
  cols :: "(string \<times> cell list) list"

definition columns :: "dataframe \<Rightarrow> string list" where
  "columns df = map fst (cols df)"

text \<open>Well-formed frames: unique column labels, every column as long as the index.\<close>

definition wf_df :: "dataframe \<Rightarrow> bool" where
  "wf_df df = (distinct (columns df) \<and> list_all (\<lambda>p. length (snd p) = nrows df) (cols df))"

text \<open>\<^verbatim>\<open>df.at[i, c]\<close>, with \<open>None\<close> where pandas raises a \<^verbatim>\<open>KeyError\<close>.\<close>

definition cell_at :: "dataframe \<Rightarrow> string \<Rightarrow> nat \<Rightarrow> cell option" where
  "cell_at df c i =
     (case map_of (cols df) c of
        None \<Rightarrow> None
      | Some col \<Rightarrow> if i < length col then Some (col ! i) else None)"

text \<open>A row as a mapping from column label to cell.\<close>

definition row_of :: "dataframe \<Rightarrow> nat \<Rightarrow> (string \<rightharpoonup> cell)" where
  "row_of df i = (\<lambda>c. cell_at df c i)"

text \<open>
  Python exceptions, as class and message. \<open>OutsideModel\<close> is no exception: it marks a
  file on which the loader below does not follow pandas (see \<open>plain_table\<close>).
\<close>

datatype error =
    FileNotFoundError string
  | IsADirectoryError string
  | UnicodeDecodeError
  | ValueError string
  | EmptyDataError string
  | OutsideModel

text \<open>
  A text file, already decoded (with \<^verbatim>\<open>errors="ignore"\<close> where the source asks for it) and
  cut into lines, without the line terminators. The \<^verbatim>\<open>encoding\<close> argument of the source
  only steers that decoding and has no counterpart here.
\<close>

record export_file =
  file_name :: string
  file_lines :: "string list"

text \<open>
  An entry of a directory, by what happens when it is opened and read: a regular file
  whose bytes decode under the encoding asked for; a regular file with bytes that do not
  (its lines are then what decoding with \<^verbatim>\<open>errors="ignore"\<close> leaves); a symbolic link
  whose target is gone; a sub-directory. \<^verbatim>\<open>glob\<close> matches all of them by name alone.
\<close>

datatype dir_entry =
    TextFile export_file
  | UndecodableFile export_file
  | DanglingLink string
  | SubDirectory string

fun entry_name :: "dir_entry \<Rightarrow> string" where
  "entry_name (TextFile f) = file_name f"
| "entry_name (UndecodableFile f) = file_name f"
| "entry_name (DanglingLink n) = n"
| "entry_name (SubDirectory n) = n"

text \<open>
  A directory path: \<^verbatim>\<open>str(folder)\<close>, the absolute path \<^verbatim>\<open>folder.resolve()\<close> prints, and
  the entries directly inside it, \<open>None\<close> when \<^verbatim>\<open>folder.exists()\<close> is false.
\<close>

record folder =
  folder_str :: string
  resolved :: string
  listing :: "dir_entry list option"

text \<open>A table without missing values: every cell is a string.\<close>

definition no_nan :: "dataframe \<Rightarrow> bool" where
  "no_nan df = list_all (\<lambda>p. NaN \<notin> set (snd p)) (cols df)"

definition TAB :: char where
  "TAB = CHR 0x09"

definition SPACE :: char where
  "SPACE = CHR 0x20"

definition startswith :: "string \<Rightarrow> string \<Rightarrow> bool" where
  "startswith s p = (take (length p) s = p)"

definition endswith :: "string \<Rightarrow> string \<Rightarrow> bool" where
  "endswith s p = (length p \<le> length s \<and> drop (length s - length p) s = p)"


section \<open>Header locator\<close>

text \<open>
  \<^verbatim>\<open>for i, line in enumerate(fh): if line.startswith("PT\t"): return i\<close>,
  the counter passed along.
\<close>

definition header_marker :: string where
  "header_marker = ''PT'' @ [TAB]"

fun enumerate_from :: "nat \<Rightarrow> string list \<Rightarrow> nat option" where
  "enumerate_from i [] = None"
| "enumerate_from i (line # fh) =
     (if startswith line header_marker then Some i else enumerate_from (Suc i) fh)"

definition header_not_found :: "string \<Rightarrow> string" where
  "header_not_found nm = [CHR 0x27] @ ''PT'' @ [CHR 0x27] @ '' header not found in '' @ nm"

definition find_header_line :: "export_file \<Rightarrow> error + nat" where
  "find_header_line path =
     (case enumerate_from 0 (file_lines path) of
        Some i \<Rightarrow> Inr i
      | None \<Rightarrow> Inl (ValueError (header_not_found (file_name path))))"


section \<open>Row repair\<close>

text \<open>
  The pandas string accessors used by \<^verbatim>\<open>_repair_pt_au\<close> (here \<open>repair_pt_au\<close>: a HOL
  name cannot start with an underscore), cell by cell. On a missing
  cell \<^verbatim>\<open>.str.len()\<close> and \<^verbatim>\<open>.str.match\<close> give the missing value, \<^verbatim>\<open>.gt(1)\<close> is false
  on it, and \<^verbatim>\<open>&\<close> reads it as false.
\<close>

fun str_len :: "cell \<Rightarrow> nat option" where
  "str_len (Str s) = Some (length s)"
| "str_len NaN = None"

fun gt :: "nat option \<Rightarrow> nat \<Rightarrow> bool" where
  "gt (Some n) k = (k < n)"
| "gt None k = False"

text \<open>\<^verbatim>\<open>.str.match(r"^[JBSP] ")\<close>: the pattern is tried at the start of the cell.\<close>

fun str_match :: "cell \<Rightarrow> bool option" where
  "str_match (Str (c # d # s)) = Some (c \<in> set ''JBSP'' \<and> d = SPACE)"
| "str_match (Str s) = Some False"
| "str_match NaN = None"

fun mask_and :: "bool \<Rightarrow> bool option \<Rightarrow> bool" where
  "mask_and a (Some b) = (a \<and> b)"
| "mask_and a None = False"

definition repair_pred :: "cell \<Rightarrow> bool" where
  "repair_pred c = mask_and (gt (str_len c) 1) (str_match c)"

definition pt_mask :: "cell list \<Rightarrow> bool list" where
  "pt_mask pt = map repair_pred pt"

text \<open>Python's \<^verbatim>\<open>s.split(" ", 1)\<close>: one part without a space, else two.\<close>

definition py_split1 :: "string \<Rightarrow> string list" where
  "py_split1 s =
     (if SPACE \<in> set s
      then [takeWhile (\<lambda>c. c \<noteq> SPACE) s, tl (dropWhile (\<lambda>c. c \<noteq> SPACE) s)]
      else [s])"

text \<open>
  One row of \<^verbatim>\<open>.str.split(" ", 1, expand=True)\<close>, padded to two columns with the
  missing value. The source gives the limit \<open>1\<close> by position; it is read as \<^verbatim>\<open>n=1\<close>,
  as the pandas releases that take it by position do.
\<close>

fun str_split_expand :: "cell \<Rightarrow> cell \<times> cell" where
  "str_split_expand (Str s) =
     (case py_split1 s of
        [a, b] \<Rightarrow> (Str a, Str b)
      | _ \<Rightarrow> (Str s, NaN))"
| "str_split_expand NaN = (NaN, NaN)"

text \<open>\<^verbatim>\<open>col.loc[mask]\<close> and \<^verbatim>\<open>col.loc[mask] = values\<close> on one column.\<close>

definition loc_get :: "bool list \<Rightarrow> cell list \<Rightarrow> cell list" where
  "loc_get msk col = map snd (filter fst (zip msk col))"

fun loc_set :: "bool list \<Rightarrow> cell list \<Rightarrow> cell list \<Rightarrow> cell list" where
  "loc_set (True # msk) (v # vs) (c # col) = v # loc_set msk vs col"
| "loc_set (False # msk) vs (c # col) = c # loc_set msk vs col"
| "loc_set msk vs col = col"

definition set_column :: "string \<Rightarrow> (cell list \<Rightarrow> cell list) \<Rightarrow> dataframe \<Rightarrow> dataframe" where
  "set_column c f df =
     df\<lparr>cols := map (\<lambda>p. if fst p = c then (fst p, f (snd p)) else p) (cols df)\<rparr>"

text \<open>\<^verbatim>\<open>df[c] = v\<close> for a new label \<open>c\<close>: a constant column, appended.\<close>

definition add_column :: "string \<Rightarrow> cell \<Rightarrow> dataframe \<Rightarrow> dataframe" where
  "add_column c v df = df\<lparr>cols := cols df @ [(c, replicate (nrows df) v)]\<rparr>"

text \<open>
  \<^verbatim>\<open>_repair_pt_au\<close>. The lookup of \<^verbatim>\<open>PT\<close> stands for the test \<^verbatim>\<open>"PT" not in df.columns\<close>
  and the reads of \<^verbatim>\<open>df["PT"]\<close>; \<open>parts\<close> are the rows of the split, whose first and second
  entries \<^verbatim>\<open>zip(*...)\<close> hands out as \<^verbatim>\<open>first\<close> and \<^verbatim>\<open>rest\<close>.
\<close>

definition repair_pt_au :: "dataframe \<Rightarrow> dataframe" where
  "repair_pt_au df =
     (case map_of (cols df) ''PT'' of
        None \<Rightarrow> df
      | Some pt \<Rightarrow>
          let msk = pt_mask pt in
          if \<not> list_ex id msk then df
          else
            let df1 = (if ''AU'' \<notin> set (columns df)
                       then add_column ''AU'' (Str []) df else df);
                parts = map str_split_expand (loc_get msk pt);
                df2 = set_column ''PT'' (loc_set msk (map fst parts)) df1;
                df3 = set_column ''AU'' (loc_set msk (map snd parts)) df2
            in df3)"


section \<open>Loading, merging, renaming\<close>

definition RENAME_MAP :: "(string \<times> string) list" where
  "RENAME_MAP =
     [(''PT'', ''Publication Type''),
      (''AU'', ''Author''),
      (''TI'', ''Title''),
      (''SO'', ''Journal''),
      (''VL'', ''Volume''),
      (''IS'', ''Issue''),
      (''DI'', ''DOI''),
      (''PD'', ''Date''),
      (''PY'', ''Year''),
      (''AB'', ''Abstract''),
      (''C1'', ''Author Address''),
      (''TC'', ''Notes_TC''),
      (''WC'', ''Notes_WC''),
      (''UT'', ''Accession Number'')]"

text \<open>The fields of one line: the text between the delimiters, empty fields kept.\<close>

fun split_on :: "char \<Rightarrow> string \<Rightarrow> string list" where
  "split_on d [] = [[]]"
| "split_on d (c # s) =
     (if c = d then [] # split_on d s
      else (case split_on d s of
              [] \<Rightarrow> [[c]]
            | fld # flds \<Rightarrow> (c # fld) # flds))"

definition field :: "string list \<Rightarrow> nat \<Rightarrow> string" where
  "field r j = (if j < length r then r ! j else [])"

text \<open>A line the tokenizer skips (\<^verbatim>\<open>skip_blank_lines\<close>, on by default): empty, or spaces only.\<close>

definition blank_line :: "string \<Rightarrow> bool" where
  "blank_line l = list_all (\<lambda>c. c = SPACE) l"

text \<open>
  The files on which the loader below follows pandas: no quote character, unique and
  non-empty header labels, no record with more fields than the header. Elsewhere pandas
  unquotes fields, renames labels or takes leading fields as the index, and the loader
  below answers \<open>OutsideModel\<close>.
\<close>

definition plain_table :: "string list \<Rightarrow> string list \<Rightarrow> string list list \<Rightarrow> bool" where
  "plain_table body names recs =
     (list_all (\<lambda>l. CHR 0x22 \<notin> set l) body \<and>
      distinct names \<and> [] \<notin> set names \<and>
      list_all (\<lambda>r. length r \<le> length names) recs)"

text \<open>
  The tokenizer drops a UTF-8 byte-order mark at the very start of the data; Python's own
  \<^verbatim>\<open>open\<close> keeps it, so it is still part of the first of \<open>file_lines\<close>.
\<close>

definition BOM :: string where
  "BOM = [CHR 0xEF, CHR 0xBB, CHR 0xBF]"

definition drop_bom :: "string list \<Rightarrow> string list" where
  "drop_bom ls =
     (case ls of
        [] \<Rightarrow> []
      | l # rest \<Rightarrow> (if startswith l BOM then drop (length BOM) l else l) # rest)"

definition unskipped_lines :: "export_file \<Rightarrow> string list" where
  "unskipped_lines f = filter (\<lambda>l. \<not> blank_line l) (drop_bom (file_lines f))"

definition plain_file :: "export_file \<Rightarrow> bool" where
  "plain_file f =
     (case unskipped_lines f of
        [] \<Rightarrow> False
      | h # rest \<Rightarrow> plain_table (h # rest) (split_on TAB h) (map (split_on TAB) rest))"

text \<open>
  \<^verbatim>\<open>pd.read_csv(f, sep="\t", header=0, dtype=str, keep_default_na=False)\<close> on the text of
  a file: the first line that is not skipped gives the labels, each later one a record;
  every field stays the string it is, a short record is filled up with empty fields.
\<close>

definition parse_table :: "export_file \<Rightarrow> error + dataframe" where
  "parse_table f =
     (case unskipped_lines f of
        [] \<Rightarrow> Inl (EmptyDataError ''No columns to parse from file'')
      | h # rest \<Rightarrow>
          let names = split_on TAB h;
              recs = map (split_on TAB) rest
          in if plain_table (h # rest) names recs
             then Inr \<lparr>nrows = length recs,
                       cols = map (\<lambda>j. (names ! j, map (\<lambda>r. Str (field r j)) recs))
                                  [0..<length names]\<rparr>
             else Inl OutsideModel)"

text \<open>
  \<^verbatim>\<open>str(folder / name)\<close>, and the message of an operating-system error about a path
  (the path in quotes, as \<^verbatim>\<open>repr\<close> prints a path without quotes or escapes of its own).
\<close>

definition entry_path :: "string \<Rightarrow> string \<Rightarrow> string" where
  "entry_path d nm =
     (if d = ''.'' then nm
      else if endswith d ''/'' then d @ nm
      else d @ ''/'' @ nm)"

definition os_error_message :: "string \<Rightarrow> string \<Rightarrow> string" where
  "os_error_message what path = what @ '': '' @ [CHR 0x27] @ path @ [CHR 0x27]"

text \<open>
  \<^verbatim>\<open>pd.read_csv\<close> on a directory entry: opening fails on a dangling link and on a
  directory, strict decoding fails on bytes the encoding does not have.
\<close>

definition read_csv :: "string \<Rightarrow> dir_entry \<Rightarrow> error + dataframe" where
  "read_csv path e =
     (case e of
        TextFile f \<Rightarrow> parse_table f
      | UndecodableFile f \<Rightarrow> Inl UnicodeDecodeError
      | DanglingLink nm \<Rightarrow>
          Inl (FileNotFoundError (os_error_message ''[Errno 2] No such file or directory'' path))
      | SubDirectory nm \<Rightarrow>
          Inl (IsADirectoryError (os_error_message ''[Errno 21] Is a directory'' path)))"

text \<open>
  The loop of \<^verbatim>\<open>read_wos_exports\<close> over the matching entries of the directory \<open>d\<close>; the
  first failing entry ends it. The loader is \<^verbatim>\<open>pd.read_csv\<close> with the arguments of the
  source, handed in as a function of the path and the entry behind it.
\<close>

fun load_frames_with ::
  "(string \<Rightarrow> dir_entry \<Rightarrow> error + dataframe) \<Rightarrow> string \<Rightarrow> dir_entry list
     \<Rightarrow> error + dataframe list" where
  "load_frames_with loader d [] = Inr []"
| "load_frames_with loader d (f # txt_files) =
     (case loader (entry_path d (entry_name f)) f of
        Inl e \<Rightarrow> Inl e
      | Inr frame \<Rightarrow>
          (case load_frames_with loader d txt_files of
             Inl e \<Rightarrow> Inl e
           | Inr frames \<Rightarrow> Inr (repair_pt_au frame # frames)))"

text \<open>
  \<^verbatim>\<open>pd.concat(frames, ignore_index=True)\<close>: the labels of all frames in the order they
  first appear; under each label the frames' columns one after the other, and for a frame
  without that label as many missing values as it has rows.
\<close>

definition union_columns :: "dataframe list \<Rightarrow> string list" where
  "union_columns frames =
     fold (\<lambda>c acc. if c \<in> set acc then acc else acc @ [c]) (concat (map columns frames)) []"

definition column_or_nan :: "string \<Rightarrow> dataframe \<Rightarrow> cell list" where
  "column_or_nan c df =
     (case map_of (cols df) c of
        Some col \<Rightarrow> col
      | None \<Rightarrow> replicate (nrows df) NaN)"

definition pd_concat :: "dataframe list \<Rightarrow> error + dataframe" where
  "pd_concat frames =
     (if frames = [] then Inl (ValueError ''No objects to concatenate'')
      else Inr \<lparr>nrows = sum_list (map nrows frames),
                cols = map (\<lambda>c. (c, concat (map (column_or_nan c) frames)))
                           (union_columns frames)\<rparr>)"

text \<open>
  \<^verbatim>\<open>cols_to_rename = {old: new for old, new in rename.items() if old in df.columns}\<close>
  and \<^verbatim>\<open>df.rename(columns=cols_to_rename)\<close>.
\<close>

definition cols_to_rename :: "(string \<times> string) list \<Rightarrow> dataframe \<Rightarrow> (string \<times> string) list" where
  "cols_to_rename rename df = filter (\<lambda>p. fst p \<in> set (columns df)) rename"

definition rename_columns :: "(string \<times> string) list \<Rightarrow> dataframe \<Rightarrow> dataframe" where
  "rename_columns m df =
     df\<lparr>cols := map (\<lambda>p. (case map_of m (fst p) of Some new \<Rightarrow> new | None \<Rightarrow> fst p, snd p))
                      (cols df)\<rparr>"

definition apply_rename :: "(string \<times> string) list \<Rightarrow> dataframe \<Rightarrow> dataframe" where
  "apply_rename rename df = rename_columns (cols_to_rename rename df) df"

text \<open>
  \<^verbatim>\<open>folder.glob("*.txt")\<close> keeps the entries whose name ends in \<^verbatim>\<open>.txt\<close>; \<^verbatim>\<open>sorted\<close> orders
  the paths of one directory by name. The preview that \<^verbatim>\<open>read_wos_exports\<close> prints before
  it returns does not touch the table and is left out.
\<close>

definition glob_txt :: "dir_entry list \<Rightarrow> dir_entry list" where
  "glob_txt entries = filter (\<lambda>f. endswith (entry_name f) ''.txt'') entries"

definition read_wos_exports_with ::
  "(string \<Rightarrow> dir_entry \<Rightarrow> error + dataframe) \<Rightarrow> folder \<Rightarrow> (string \<times> string) list
     \<Rightarrow> error + dataframe" where
  "read_wos_exports_with loader fld rename =
     (case listing fld of
        None \<Rightarrow> Inl (FileNotFoundError (resolved fld @ '' does not exist.''))
      | Some entries \<Rightarrow>
          let txt_files = sort_key entry_name (glob_txt entries) in
          if txt_files = []
          then Inl (FileNotFoundError (''No .txt files found in '' @ resolved fld))
          else
            (case load_frames_with loader (folder_str fld) txt_files of
               Inl e \<Rightarrow> Inl e
             | Inr frames \<Rightarrow>
                 (case pd_concat frames of
                    Inl e \<Rightarrow> Inl e
                  | Inr df \<Rightarrow> Inr (apply_rename rename df))))"

definition read_wos_exports :: "folder \<Rightarrow> (string \<times> string) list \<Rightarrow> error + dataframe" where
  "read_wos_exports = read_wos_exports_with read_csv"


section \<open>The header locator finds the first marker line\<close>

lemma enumerate_from_Some:
  "enumerate_from k ls = Some i \<longleftrightarrow>
     (\<exists>n. i = k + n \<and> n < length ls \<and> startswith (ls ! n) header_marker \<and>
     (\<forall>j<n. \<not> startswith (ls ! j) header_marker))"
proof (induction ls arbitrary: k)
  case Nil
  then show ?case by simp
next
  case (Cons l ls)
  show ?case
  proof (cases "startswith l header_marker")
    case True
    have "(\<exists>n. i = k + n \<and> n < length (l # ls) \<and> startswith ((l # ls) ! n) header_marker \<and>
            (\<forall>j<n. \<not> startswith ((l # ls) ! j) header_marker)) \<longleftrightarrow> i = k" (is "?R \<longleftrightarrow> _")
    proof
      assume ?R
      then obtain n where n: "i = k + n" "\<forall>j<n. \<not> startswith ((l # ls) ! j) header_marker"
        by blast
      from n(2) True have "n = 0" by (cases n) auto
      with n show "i = k" by simp
    next
      assume "i = k"
      with True show ?R by (intro exI[of _ 0]) simp
    qed
    with True show ?thesis by auto
  next
    case False
    have "(\<exists>n. i = Suc k + n \<and> n < length ls \<and> startswith (ls ! n) header_marker \<and>
            (\<forall>j<n. \<not> startswith (ls ! j) header_marker)) \<longleftrightarrow>
          (\<exists>n. i = k + n \<and> n < length (l # ls) \<and> startswith ((l # ls) ! n) header_marker \<and>
            (\<forall>j<n. \<not> startswith ((l # ls) ! j) header_marker))" (is "?L \<longleftrightarrow> ?R")
    proof
      assume ?L
      then obtain n where n: "i = Suc k + n" "n < length ls" "startswith (ls ! n) header_marker"
        "\<forall>j<n. \<not> startswith (ls ! j) header_marker" by blast
      have "\<forall>j<Suc n. \<not> startswith ((l # ls) ! j) header_marker"
        using n(4) False by (auto simp: nth_Cons split: nat.splits)
      with n show ?R by (intro exI[of _ "Suc n"]) simp
    next
      assume ?R
      then obtain n where n: "i = k + n" "n < length (l # ls)"
        "startswith ((l # ls) ! n) header_marker"
        "\<forall>j<n. \<not> startswith ((l # ls) ! j) header_marker" by blast
      from n(3) False obtain m where m: "n = Suc m" by (cases n) auto
      have "\<forall>j<m. \<not> startswith (ls ! j) header_marker"
        using n(4) m by (metis Suc_less_eq nth_Cons_Suc)
      with n m show ?L by (intro exI[of _ m]) simp
    qed
    with False show ?thesis by (simp add: Cons.IH)
  qed
qed

lemma enumerate_from_None:
  "enumerate_from k ls = None \<longleftrightarrow> (\<forall>l\<in>set ls. \<not> startswith l header_marker)"
  by (induction ls arbitrary: k) auto

lemma header_not_found_names:
  "(\<exists>a. header_not_found nm = a @ nm) \<and> (\<exists>a b. header_not_found nm = a @ ''PT'' @ b)"
  unfolding header_not_found_def
  by (metis append.assoc)

text \<open>
  C8: \<^verbatim>\<open>_find_header_line\<close> returns \<open>i\<close> exactly when line \<open>i\<close> (counted from zero) is the
  first line that starts with \<^verbatim>\<open>PT\<close> and a tab; it raises exactly when no line does, and
  then with the \<^verbatim>\<open>ValueError\<close> whose message holds the searched marker and the file's name.
\<close>

theorem find_header_line_first_marker:
  "(find_header_line path = Inr i \<longleftrightarrow>
      i < length (file_lines path) \<and> startswith (file_lines path ! i) header_marker \<and>
      (\<forall>j<i. \<not> startswith (file_lines path ! j) header_marker))
   \<and> (find_header_line path = Inl e \<longleftrightarrow>
      (\<forall>l\<in>set (file_lines path). \<not> startswith l header_marker) \<and>
      e = ValueError (header_not_found (file_name path)))
   \<and> (\<exists>a. header_not_found (file_name path) = a @ file_name path)
   \<and> (\<exists>a b. header_not_found (file_name path) = a @ ''PT'' @ b)"
proof -
  have A: "find_header_line path = Inr i \<longleftrightarrow> enumerate_from 0 (file_lines path) = Some i"
    by (simp add: find_header_line_def split: option.splits)
  have B: "find_header_line path = Inl e \<longleftrightarrow>
     enumerate_from 0 (file_lines path) = None \<and> e = ValueError (header_not_found (file_name path))"
    by (auto simp: find_header_line_def split: option.splits)
  show ?thesis
    using header_not_found_names[of "file_name path"]
    by (simp add: A B enumerate_from_Some enumerate_from_None)
qed

theorem find_header_line_first_marker_witness:
  "find_header_line \<lparr>file_name = ''a.txt'',
      file_lines = [''FN Clarivate'', ''PT'' @ [TAB] @ ''AU'', ''PT'' @ [TAB] @ ''TI'']\<rparr> = Inr 1
   \<and> find_header_line \<lparr>file_name = ''b.txt'', file_lines = [''PT AU'', ''XPT'' @ [TAB]]\<rparr>
       = Inl (ValueError (header_not_found ''b.txt''))"
proof -
  let ?a = "\<lparr>file_name = ''a.txt'',
      file_lines = [''FN Clarivate'', ''PT'' @ [TAB] @ ''AU'', ''PT'' @ [TAB] @ ''TI'']\<rparr>"
  let ?b = "\<lparr>file_name = ''b.txt'', file_lines = [''PT AU'', ''XPT'' @ [TAB]]\<rparr>"
  have 1: "find_header_line ?a = Inr 1"
    using find_header_line_first_marker[of ?a 1 OutsideModel]
    by (simp add: startswith_def header_marker_def TAB_def)
  have 2: "find_header_line ?b = Inl (ValueError (header_not_found ''b.txt''))"
    using find_header_line_first_marker[of ?b 0 "ValueError (header_not_found ''b.txt'')"]
    by (simp add: startswith_def header_marker_def TAB_def)
  from 1 2 show ?thesis by simp
qed


section \<open>Row repair: what changes and what does not\<close>

lemma length_loc_set: "length (loc_set msk vs col) = length col"
  by (induction msk vs col rule: loc_set.induct) auto

lemma loc_set_map:
  "length msk = length src \<Longrightarrow> length col = length src \<Longrightarrow>
   loc_set msk (map f (loc_get msk src)) col =
     map (\<lambda>(m, s, c). if m then f s else c) (zip msk (zip src col))"
proof (induction msk arbitrary: src col)
  case Nil
  then show ?case by simp
next
  case (Cons m msk)
  then obtain s src' c col' where "src = s # src'" "col = c # col'"
    by (cases src; cases col) auto
  with Cons show ?case by (cases m) (auto simp: loc_get_def)
qed

lemma loc_set_nth:
  assumes "length msk = length src" "length col = length src" "i < length src"
  shows "loc_set msk (map f (loc_get msk src)) col ! i = (if msk ! i then f (src ! i) else col ! i)"
  using assms by (simp add: loc_set_map)

lemma map_of_set_column:
  "map_of (cols (set_column c f df)) c' =
     (if c' = c then map_option f (map_of (cols df) c) else map_of (cols df) c')"
proof -
  have "map_of (map (\<lambda>p. if fst p = c then (fst p, f (snd p)) else p) ps) c' =
     (if c' = c then map_option f (map_of ps c) else map_of ps c')" for ps
    by (induction ps) auto
  then show ?thesis by (simp add: set_column_def)
qed

lemma map_of_add_column:
  "map_of (cols df) c = None \<Longrightarrow>
   map_of (cols (add_column c v df)) c' =
     (if c' = c then Some (replicate (nrows df) v) else map_of (cols df) c')"
  by (auto simp: add_column_def map_add_def split: option.splits)

lemma columns_set_column: "columns (set_column c f df) = columns df"
  by (simp add: set_column_def columns_def comp_def cong: map_cong)

lemma nrows_set_column: "nrows (set_column c f df) = nrows df"
  by (simp add: set_column_def)

lemma nrows_add_column: "nrows (add_column c v df) = nrows df"
  by (simp add: add_column_def)

lemma in_columns: "c \<in> set (columns df) \<longleftrightarrow> (\<exists>col. map_of (cols df) c = Some col)"
  using map_of_eq_None_iff[of "cols df" c] by (auto simp: columns_def)

lemma not_in_columns: "c \<notin> set (columns df) \<longleftrightarrow> map_of (cols df) c = None"
  by (simp add: columns_def map_of_eq_None_iff)

lemma list_ex_pt_mask: "list_ex id (pt_mask pt) = list_ex repair_pred pt"
  by (simp add: pt_mask_def list_ex_iff)


lemma repair_pt_au_map_of:
  assumes "map_of (cols df) ''PT'' = Some pt" "list_ex repair_pred pt"
  shows "map_of (cols (repair_pt_au df)) c =
     (if c = ''PT''
      then Some (loc_set (pt_mask pt) (map (fst \<circ> str_split_expand) (loc_get (pt_mask pt) pt)) pt)
      else if c = ''AU''
      then Some (loc_set (pt_mask pt) (map (snd \<circ> str_split_expand) (loc_get (pt_mask pt) pt)) (case map_of (cols df) ''AU'' of Some au \<Rightarrow> au | None \<Rightarrow> replicate (nrows df) (Str [])))
      else map_of (cols df) c)"
proof (cases "map_of (cols df) ''AU''")
  case None
  with assms show ?thesis
    by (simp add: repair_pt_au_def list_ex_pt_mask not_in_columns Let_def
        map_of_set_column map_of_add_column)
next
  case (Some au)
  with assms show ?thesis
    by (simp add: repair_pt_au_def list_ex_pt_mask not_in_columns Let_def
        map_of_set_column)
qed

lemma repair_pt_au_noop:
  "map_of (cols df) ''PT'' = None \<or> (\<exists>pt. map_of (cols df) ''PT'' = Some pt \<and> \<not> list_ex repair_pred pt)
   \<Longrightarrow> repair_pt_au df = df"
  by (auto simp: repair_pt_au_def list_ex_pt_mask)

lemma nrows_repair_pt_au: "nrows (repair_pt_au df) = nrows df"
  by (simp add: repair_pt_au_def Let_def nrows_set_column nrows_add_column split: option.splits)


lemma wf_df_length: "wf_df df \<Longrightarrow> map_of (cols df) c = Some col \<Longrightarrow> length col = nrows df"
  by (auto simp: wf_df_def list_all_iff dest!: map_of_SomeD)

lemma wf_df_set_column:
  "wf_df df \<Longrightarrow> (\<And>col. length (f col) = length col) \<Longrightarrow> wf_df (set_column c f df)"
  unfolding wf_df_def columns_set_column
  by (auto simp: set_column_def list_all_iff)

lemma wf_df_add_column:
  "wf_df df \<Longrightarrow> c \<notin> set (columns df) \<Longrightarrow> wf_df (add_column c v df)"
  by (auto simp: wf_df_def add_column_def columns_def list_all_iff)

lemma wf_df_repair_pt_au: "wf_df df \<Longrightarrow> wf_df (repair_pt_au df)"
  by (auto simp: repair_pt_au_def Let_def length_loc_set
      intro!: wf_df_set_column wf_df_add_column split: option.splits)

lemma repair_pred_Str:
  "repair_pred (Str s) \<longleftrightarrow> (\<exists>l r. s = l # SPACE # r \<and> l \<in> set ''JBSP'')"
proof (cases s)
  case Nil
  then show ?thesis by (simp add: repair_pred_def)
next
  case (Cons a t)
  then show ?thesis by (cases t) (auto simp: repair_pred_def)
qed

lemma repair_pred_NaN: "\<not> repair_pred NaN"
  by (simp add: repair_pred_def)

lemma str_split_expand_glued:
  "l \<in> set ''JBSP'' \<Longrightarrow> str_split_expand (Str (l # SPACE # r)) = (Str [l], Str r)"
  by (auto simp: py_split1_def SPACE_def)

lemma row_of_Some:
  "row_of df i c = Some x \<longleftrightarrow>
     (\<exists>col. map_of (cols df) c = Some col \<and> i < length col \<and> col ! i = x)"
  by (auto simp: row_of_def cell_at_def split: option.splits)

lemma repaired_row:
  assumes wf: "wf_df df" and pt: "row_of df i ''PT'' = Some (Str s)" and m: "repair_pred (Str s)"
  shows "\<exists>l r. s = l # SPACE # r \<and> l \<in> set ''JBSP'' \<and>
           row_of (repair_pt_au df) i ''PT'' = Some (Str [l]) \<and>
           row_of (repair_pt_au df) i ''AU'' = Some (Str r)"
proof -
  from pt obtain pt_col where col: "map_of (cols df) ''PT'' = Some pt_col"
    and i: "i < length pt_col" and s: "pt_col ! i = Str s"
    by (auto simp: row_of_Some)
  from m obtain l r where lr: "s = l # SPACE # r" "l \<in> set ''JBSP''"
    by (auto simp: repair_pred_Str)
  from i s m have ex: "list_ex repair_pred pt_col"
    unfolding list_ex_iff by (metis nth_mem)
  have len: "length pt_col = nrows df" using wf col by (rule wf_df_length)
  let ?au = "case map_of (cols df) ''AU'' of Some au \<Rightarrow> au | None \<Rightarrow> replicate (nrows df) (Str [])"
  have len_au: "length ?au = length pt_col"
    using wf len by (auto simp: wf_df_length split: option.splits)
  have mi: "pt_mask pt_col ! i" using i s m by (simp add: pt_mask_def)
  have split: "str_split_expand (pt_col ! i) = (Str [l], Str r)"
    unfolding s lr(1) using lr(2) by (rule str_split_expand_glued)
  have "row_of (repair_pt_au df) i ''PT'' = Some (Str [l])"
    using i mi split
    by (simp add: row_of_def cell_at_def repair_pt_au_map_of[OF col ex] length_loc_set
        loc_set_nth pt_mask_def)
  moreover have "row_of (repair_pt_au df) i ''AU'' = Some (Str r)"
    using i mi split len_au
    by (simp add: row_of_def cell_at_def repair_pt_au_map_of[OF col ex] length_loc_set
        loc_set_nth pt_mask_def)
  ultimately show ?thesis using lr by blast
qed

lemma unmatched_row:
  assumes wf: "wf_df df" and nm: "\<forall>c. row_of df i ''PT'' = Some c \<longrightarrow> \<not> repair_pred c"
    and c: "c \<in> set (columns df)"
  shows "row_of (repair_pt_au df) i c = row_of df i c"
proof (cases "\<exists>pt. map_of (cols df) ''PT'' = Some pt \<and> list_ex repair_pred pt")
  case False
  then have "repair_pt_au df = df" by (intro repair_pt_au_noop) auto
  then show ?thesis by simp
next
  case True
  then obtain pt where col: "map_of (cols df) ''PT'' = Some pt" and ex: "list_ex repair_pred pt"
    by blast
  have len: "length pt = nrows df" using wf col by (rule wf_df_length)
  show ?thesis
  proof (cases "i < nrows df")
    case False
    from c obtain col' where c': "map_of (cols df) c = Some col'"
      by (auto simp: in_columns)
    with wf have "length col' = nrows df" by (simp add: wf_df_length)
    with False len c' col show ?thesis
      by (auto simp: row_of_def cell_at_def repair_pt_au_map_of[OF col ex] length_loc_set
          split: option.splits)
  next
    case i: True
    with nm col len have ni: "\<not> pt_mask pt ! i"
      by (auto simp: row_of_Some pt_mask_def)
    from c obtain col' where c': "map_of (cols df) c = Some col'"
      by (auto simp: in_columns)
    with wf have len': "length col' = nrows df" by (simp add: wf_df_length)
    show ?thesis
      using i ni len len' c' col
      by (auto simp: row_of_def cell_at_def repair_pt_au_map_of[OF col ex] length_loc_set
          loc_set_nth pt_mask_def)
  qed
qed

lemma length_pt_mask: "length (pt_mask pt) = length pt"
  by (simp add: pt_mask_def)

lemma columns_repair_pt_au:
  "columns (repair_pt_au df) = columns df \<or>
   (''AU'' \<notin> set (columns df) \<and> columns (repair_pt_au df) = columns df @ [''AU''])"
  by (auto simp: repair_pt_au_def Let_def columns_set_column split: option.splits)
     (simp add: add_column_def columns_def)

lemma row_of_outside: "c \<notin> set (columns df) \<Longrightarrow> row_of df i c = None"
  by (simp add: row_of_def cell_at_def not_in_columns)

lemma created_au_cell:
  assumes wf: "wf_df df" and nm: "\<forall>c. row_of df i ''PT'' = Some c \<longrightarrow> \<not> repair_pred c"
    and au: "''AU'' \<notin> set (columns df)"
    and col: "map_of (cols df) ''PT'' = Some pt" and ex: "list_ex repair_pred pt"
  shows "row_of (repair_pt_au df) i ''AU'' = (if i < nrows df then Some (Str []) else None)"
proof -
  have len: "length pt = nrows df" using wf col by (rule wf_df_length)
  from au have none: "map_of (cols df) ''AU'' = None" by (simp add: not_in_columns)
  show ?thesis
  proof (cases "i < nrows df")
    case False
    with none show ?thesis
      by (simp add: row_of_def cell_at_def repair_pt_au_map_of[OF col ex] length_loc_set)
  next
    case i: True
    with nm col len have ni: "\<not> pt_mask pt ! i"
      by (auto simp: row_of_Some pt_mask_def)
    show ?thesis
      using i ni len none
      by (simp add: row_of_def cell_at_def repair_pt_au_map_of[OF col ex] length_loc_set
          loc_set_nth length_pt_mask)
  qed
qed

text \<open>
  C3: in a well-formed table, a row whose \<^verbatim>\<open>PT\<close> cell \<open>s\<close> satisfies the repair predicate
  has after \<^verbatim>\<open>_repair_pt_au\<close> a \<^verbatim>\<open>PT\<close> cell of exactly one character, one of J, B, S, P,
  and an \<^verbatim>\<open>AU\<close> cell holding everything after the first space of \<open>s\<close>, whatever the
  \<^verbatim>\<open>AU\<close> cell held before (nothing is assumed about it).
\<close>

theorem repaired_row_code_and_author:
  assumes "wf_df df" and "row_of df i ''PT'' = Some (Str s)" and "repair_pred (Str s)"
  shows "\<exists>l. l \<in> {CHR ''J'', CHR ''B'', CHR ''S'', CHR ''P''} \<and>
           row_of (repair_pt_au df) i ''PT'' = Some (Str [l]) \<and>
           row_of (repair_pt_au df) i ''AU'' = Some (Str (tl (dropWhile (\<lambda>c. c \<noteq> SPACE) s)))"
proof -
  from repaired_row[OF assms] obtain l r where lr: "s = l # SPACE # r" "l \<in> set ''JBSP''"
    "row_of (repair_pt_au df) i ''PT'' = Some (Str [l])"
    "row_of (repair_pt_au df) i ''AU'' = Some (Str r)" by blast
  from lr(2) have "l \<noteq> SPACE" by (auto simp: SPACE_def)
  then have "tl (dropWhile (\<lambda>c. c \<noteq> SPACE) s) = r" by (simp add: lr(1))
  with lr show ?thesis by auto
qed

theorem repaired_row_code_and_author_witness:
  "wf_df \<lparr>nrows = 2,
         cols = [(''PT'', [Str ''J Smith, John'', Str ''J'']),
                 (''AU'', [Str ''old'', Str ''Doe'']),
                 (''TI'', [Str ''T1'', Str ''T2''])]\<rparr>
   \<and> repair_pred (Str ''J Smith, John'')
   \<and> row_of \<lparr>nrows = 2,
         cols = [(''PT'', [Str ''J Smith, John'', Str ''J'']),
                 (''AU'', [Str ''old'', Str ''Doe'']),
                 (''TI'', [Str ''T1'', Str ''T2''])]\<rparr> 0 ''AU'' = Some (Str ''old'')
   \<and> row_of (repair_pt_au \<lparr>nrows = 2,
         cols = [(''PT'', [Str ''J Smith, John'', Str ''J'']),
                 (''AU'', [Str ''old'', Str ''Doe'']),
                 (''TI'', [Str ''T1'', Str ''T2''])]\<rparr>) 0 ''AU'' = Some (Str ''Smith, John'')"
proof -
  let ?df = "\<lparr>nrows = 2,
         cols = [(''PT'', [Str ''J Smith, John'', Str ''J'']),
                 (''AU'', [Str ''old'', Str ''Doe'']),
                 (''TI'', [Str ''T1'', Str ''T2''])]\<rparr>"
  have h1: "wf_df ?df" by (simp add: wf_df_def columns_def)
  have h2: "row_of ?df 0 ''PT'' = Some (Str ''J Smith, John'')"
    by (simp add: row_of_def cell_at_def)
  have h3: "repair_pred (Str ''J Smith, John'')" by (simp add: repair_pred_def SPACE_def)
  have h4: "row_of ?df 0 ''AU'' = Some (Str ''old'')" by (simp add: row_of_def cell_at_def)
  from repaired_row_code_and_author[OF h1 h2 h3] h1 h3 h4 show ?thesis
    by (elim exE conjE) (simp add: SPACE_def)
qed

text \<open>
  C4, as stated, fails: in the table with the single column \<^verbatim>\<open>PT\<close> and the cells
  \<^verbatim>\<open>J Smith\<close> and \<^verbatim>\<open>J\<close>, the second row has a one-character cell that does not satisfy
  the repair predicate, and yet the row is not what it was: it had no \<^verbatim>\<open>AU\<close> cell and has
  an empty one afterwards.
\<close>

theorem unmatched_row_gains_cell_counterexample:
  "wf_df \<lparr>nrows = 2, cols = [(''PT'', [Str ''J Smith'', Str ''J''])]\<rparr>
   \<and> row_of \<lparr>nrows = 2, cols = [(''PT'', [Str ''J Smith'', Str ''J''])]\<rparr> 1 ''PT''
       = Some (Str ''J'')
   \<and> \<not> repair_pred (Str ''J'')
   \<and> row_of \<lparr>nrows = 2, cols = [(''PT'', [Str ''J Smith'', Str ''J''])]\<rparr> 1 ''AU'' = None
   \<and> row_of (repair_pt_au \<lparr>nrows = 2, cols = [(''PT'', [Str ''J Smith'', Str ''J''])]\<rparr>) 1 ''AU''
       = Some (Str [])"
  by code_simp

text \<open>
  C4, amended: in a well-formed table, a row whose \<^verbatim>\<open>PT\<close> cell does not satisfy the repair
  predicate keeps every cell it has. The row is the same mapping as before when the table
  has an \<^verbatim>\<open>AU\<close> column or no \<^verbatim>\<open>PT\<close> cell of the table satisfies the predicate; when the
  table has no \<^verbatim>\<open>AU\<close> column and some \<^verbatim>\<open>PT\<close> cell satisfies the predicate, the row gains
  an \<^verbatim>\<open>AU\<close> cell holding the empty string and is otherwise the same. A one-character cell
  never satisfies the predicate, nor does a cell that does not start with one of J, B, S,
  P and a space.
\<close>

theorem unmatched_row_cells_kept:
  assumes "wf_df df" and "\<forall>c. row_of df i ''PT'' = Some c \<longrightarrow> \<not> repair_pred c"
  shows "(\<forall>c\<in>set (columns df). row_of (repair_pt_au df) i c = row_of df i c)
     \<and> (''AU'' \<in> set (columns df) \<or>
          \<not> (\<exists>pt. map_of (cols df) ''PT'' = Some pt \<and> list_ex repair_pred pt) \<or>
          \<not> i < nrows df
          \<longrightarrow> row_of (repair_pt_au df) i = row_of df i)
     \<and> (''AU'' \<notin> set (columns df) \<and>
          (\<exists>pt. map_of (cols df) ''PT'' = Some pt \<and> list_ex repair_pred pt) \<and>
          i < nrows df
          \<longrightarrow> row_of (repair_pt_au df) i = (row_of df i)(''AU'' \<mapsto> Str []))
     \<and> \<not> repair_pred (Str [x])
     \<and> ((\<nexists>l r. s = l # SPACE # r \<and> l \<in> {CHR ''J'', CHR ''B'', CHR ''S'', CHR ''P''})
          \<longrightarrow> \<not> repair_pred (Str s))"
proof -
  let ?m = "\<exists>pt. map_of (cols df) ''PT'' = Some pt \<and> list_ex repair_pred pt"
  have same: "row_of (repair_pt_au df) i c = row_of df i c" if "c \<in> set (columns df)" for c
    using assms that by (rule unmatched_row)
  have out: "row_of (repair_pt_au df) i c = row_of df i c"
    if "c \<notin> set (columns (repair_pt_au df))" for c
  proof -
    from that columns_repair_pt_au[of df] have "c \<notin> set (columns df)" by auto
    with that show ?thesis by (simp add: row_of_outside)
  qed
  have other: "row_of (repair_pt_au df) i c = row_of df i c" if "c \<noteq> ''AU''" for c
  proof (cases "c \<in> set (columns df)")
    case True
    then show ?thesis by (rule same)
  next
    case False
    with that columns_repair_pt_au[of df] have "c \<notin> set (columns (repair_pt_au df))" by auto
    then show ?thesis by (rule out)
  qed
  have A1: "row_of (repair_pt_au df) i = row_of df i" if "''AU'' \<in> set (columns df)"
  proof
    fix c
    show "row_of (repair_pt_au df) i c = row_of df i c"
      using that same other by (cases "c = ''AU''") auto
  qed
  have A2: "row_of (repair_pt_au df) i = row_of df i" if "\<not> ?m"
  proof -
    from that have "repair_pt_au df = df" by (intro repair_pt_au_noop) auto
    then show ?thesis by simp
  qed
  have A3: "row_of (repair_pt_au df) i = row_of df i"
    if "\<not> i < nrows df" "''AU'' \<notin> set (columns df)" "?m"
  proof
    fix c
    from that(3) obtain pt where pt: "map_of (cols df) ''PT'' = Some pt" "list_ex repair_pred pt"
      by blast
    from created_au_cell[OF assms that(2) pt] that(1)
    have "row_of (repair_pt_au df) i ''AU'' = None" by simp
    with that(2) other show "row_of (repair_pt_au df) i c = row_of df i c"
      by (cases "c = ''AU''") (simp_all add: row_of_outside)
  qed
  have A: "row_of (repair_pt_au df) i = row_of df i"
    if "''AU'' \<in> set (columns df) \<or> \<not> ?m \<or> \<not> i < nrows df"
    using that A1 A2 A3 by blast
  have B: "row_of (repair_pt_au df) i = (row_of df i)(''AU'' \<mapsto> Str [])"
    if "''AU'' \<notin> set (columns df)" "?m" "i < nrows df"
  proof
    fix c
    from that(2) obtain pt where pt: "map_of (cols df) ''PT'' = Some pt" "list_ex repair_pred pt"
      by blast
    from created_au_cell[OF assms that(1) pt] that(3)
    have "row_of (repair_pt_au df) i ''AU'' = Some (Str [])" by simp
    with other show "row_of (repair_pt_au df) i c = ((row_of df i)(''AU'' \<mapsto> Str [])) c"
      by (cases "c = ''AU''") simp_all
  qed
  have C: "\<not> repair_pred (Str [x])" by (simp add: repair_pred_def)
  have D: "(\<nexists>l r. s = l # SPACE # r \<and> l \<in> {CHR ''J'', CHR ''B'', CHR ''S'', CHR ''P''})
          \<longrightarrow> \<not> repair_pred (Str s)"
    by (auto simp: repair_pred_Str)
  from same A B C D show ?thesis by blast
qed

theorem unmatched_row_cells_kept_witness:
  "wf_df \<lparr>nrows = 3,
         cols = [(''PT'', [Str ''J Smith, John'', Str ''J'', Str ''Book review'']),
                 (''TI'', [Str ''T1'', Str ''T2'', Str ''T3''])]\<rparr>
   \<and> \<not> repair_pred (Str ''Book review'')
   \<and> row_of (repair_pt_au \<lparr>nrows = 3,
         cols = [(''PT'', [Str ''J Smith, John'', Str ''J'', Str ''Book review'']),
                 (''TI'', [Str ''T1'', Str ''T2'', Str ''T3''])]\<rparr>) 2
       = [''PT'' \<mapsto> Str ''Book review'', ''TI'' \<mapsto> Str ''T3'', ''AU'' \<mapsto> Str []]
   \<and> row_of \<lparr>nrows = 3,
         cols = [(''PT'', [Str ''J Smith, John'', Str ''J'', Str ''Book review'']),
                 (''TI'', [Str ''T1'', Str ''T2'', Str ''T3''])]\<rparr> 2 ''AU'' = None"
proof -
  let ?df = "\<lparr>nrows = 3,
         cols = [(''PT'', [Str ''J Smith, John'', Str ''J'', Str ''Book review'']),
                 (''TI'', [Str ''T1'', Str ''T2'', Str ''T3''])]\<rparr>"
  have h1: "wf_df ?df" by (simp add: wf_df_def columns_def)
  have h3: "\<not> repair_pred (Str ''Book review'')" by (simp add: repair_pred_def SPACE_def)
  have h2: "\<forall>c. row_of ?df 2 ''PT'' = Some c \<longrightarrow> \<not> repair_pred c"
    using h3 by (simp add: row_of_def cell_at_def)
  have au: "''AU'' \<notin> set (columns ?df)" by (simp add: columns_def)
  have m: "\<exists>pt. map_of (cols ?df) ''PT'' = Some pt \<and> list_ex repair_pred pt"
    by (simp add: repair_pred_def SPACE_def)
  have i: "2 < nrows ?df" by simp
  have before: "row_of ?df 2 = [''PT'' \<mapsto> Str ''Book review'', ''TI'' \<mapsto> Str ''T3'']"
    by (rule ext) (simp add: row_of_def cell_at_def)
  have "row_of (repair_pt_au ?df) 2 = (row_of ?df 2)(''AU'' \<mapsto> Str [])"
    using unmatched_row_cells_kept[OF h1 h2] au m i by blast
  with before h1 h3 show ?thesis by (simp add: row_of_outside[OF au])
qed

text \<open>
  C5: for a repaired row, the new \<^verbatim>\<open>PT\<close> cell, one space and the new \<^verbatim>\<open>AU\<close> cell
  put together give the original \<^verbatim>\<open>PT\<close> cell.
\<close>

theorem repair_round_trip:
  assumes "wf_df df" and "row_of df i ''PT'' = Some (Str s)" and "repair_pred (Str s)"
  shows "\<exists>p a. row_of (repair_pt_au df) i ''PT'' = Some (Str p) \<and>
               row_of (repair_pt_au df) i ''AU'' = Some (Str a) \<and>
               p @ [SPACE] @ a = s"
  using repaired_row[OF assms] by auto

theorem repair_round_trip_witness:
  "wf_df \<lparr>nrows = 2, cols = [(''PT'', [Str ''J'', Str ''B Doe, Jane  K.'']), (''TI'', [Str ''T1'', Str ''T2''])]\<rparr>
   \<and> repair_pred (Str ''B Doe, Jane  K.'')
   \<and> (\<exists>p a. row_of (repair_pt_au \<lparr>nrows = 2, cols = [(''PT'', [Str ''J'', Str ''B Doe, Jane  K.'']), (''TI'', [Str ''T1'', Str ''T2''])]\<rparr>) 1 ''PT'' = Some (Str p)
        \<and> row_of (repair_pt_au \<lparr>nrows = 2, cols = [(''PT'', [Str ''J'', Str ''B Doe, Jane  K.'']), (''TI'', [Str ''T1'', Str ''T2''])]\<rparr>) 1 ''AU'' = Some (Str a)
        \<and> p @ '' '' @ a = ''B Doe, Jane  K.'')"
proof -
  let ?df = "\<lparr>nrows = 2, cols = [(''PT'', [Str ''J'', Str ''B Doe, Jane  K.'']), (''TI'', [Str ''T1'', Str ''T2''])]\<rparr>"
  have h1: "wf_df ?df" by (simp add: wf_df_def columns_def)
  have h2: "row_of ?df 1 ''PT'' = Some (Str ''B Doe, Jane  K.'')"
    by (simp add: row_of_def cell_at_def)
  have h3: "repair_pred (Str ''B Doe, Jane  K.'')" by (simp add: repair_pred_def SPACE_def)
  from repair_round_trip[OF h1 h2 h3] h1 h3 show ?thesis
    by (simp add: SPACE_def)
qed

text \<open>
  C6: \<^verbatim>\<open>_repair_pt_au\<close> keeps the number of rows (and every column as long as the index),
  and every column other than \<^verbatim>\<open>PT\<close> and \<^verbatim>\<open>AU\<close> is the same before and after, in every row.
\<close>

theorem repair_frame:
  "nrows (repair_pt_au df) = nrows df
   \<and> (wf_df df \<longrightarrow> wf_df (repair_pt_au df))
   \<and> (\<forall>c. c \<noteq> ''PT'' \<and> c \<noteq> ''AU'' \<longrightarrow>
         map_of (cols (repair_pt_au df)) c = map_of (cols df) c \<and>
         (\<forall>i. row_of (repair_pt_au df) i c = row_of df i c))"
proof -
  have "map_of (cols (repair_pt_au df)) c = map_of (cols df) c" if "c \<noteq> ''PT''" "c \<noteq> ''AU''" for c
  proof (cases "\<exists>pt. map_of (cols df) ''PT'' = Some pt \<and> list_ex repair_pred pt")
    case True
    with that show ?thesis by (auto simp: repair_pt_au_map_of)
  next
    case False
    then have "repair_pt_au df = df" by (intro repair_pt_au_noop) auto
    then show ?thesis by simp
  qed
  then show ?thesis
    by (simp add: nrows_repair_pt_au wf_df_repair_pt_au row_of_def cell_at_def)
qed

theorem repair_frame_witness:
  "wf_df \<lparr>nrows = 2, cols = [(''TI'', [Str ''T1'', Str ''T2'']), (''PT'', [Str ''S A B'', Str ''P ''])]\<rparr>
   \<and> wf_df (repair_pt_au \<lparr>nrows = 2, cols = [(''TI'', [Str ''T1'', Str ''T2'']), (''PT'', [Str ''S A B'', Str ''P ''])]\<rparr>)
   \<and> nrows (repair_pt_au \<lparr>nrows = 2, cols = [(''TI'', [Str ''T1'', Str ''T2'']), (''PT'', [Str ''S A B'', Str ''P ''])]\<rparr>) = 2
   \<and> map_of (cols (repair_pt_au \<lparr>nrows = 2, cols = [(''TI'', [Str ''T1'', Str ''T2'']), (''PT'', [Str ''S A B'', Str ''P ''])]\<rparr>)) ''TI''
       = Some [Str ''T1'', Str ''T2'']
   \<and> row_of (repair_pt_au \<lparr>nrows = 2, cols = [(''TI'', [Str ''T1'', Str ''T2'']), (''PT'', [Str ''S A B'', Str ''P ''])]\<rparr>) 1 ''TI''
       = Some (Str ''T2'')"
proof -
  let ?df = "\<lparr>nrows = 2, cols = [(''TI'', [Str ''T1'', Str ''T2'']), (''PT'', [Str ''S A B'', Str ''P ''])]\<rparr>"
  have h1: "wf_df ?df" by (simp add: wf_df_def columns_def)
  have h2: "''TI'' \<noteq> ''PT'' \<and> ''TI'' \<noteq> ''AU''" by simp
  from repair_frame[of ?df] h1 h2 show ?thesis
    by (simp add: row_of_def cell_at_def)
qed

text \<open>
  C10: without a \<^verbatim>\<open>PT\<close> column, or with no \<^verbatim>\<open>PT\<close> cell satisfying the repair predicate,
  \<^verbatim>\<open>_repair_pt_au\<close> returns the table as it is; an \<^verbatim>\<open>AU\<close> column appears only when some
  \<^verbatim>\<open>PT\<close> cell satisfies the predicate.
\<close>

theorem repair_unchanged_without_match:
  "((''PT'' \<notin> set (columns df) \<or>
      (\<forall>pt. map_of (cols df) ''PT'' = Some pt \<longrightarrow> \<not> list_ex repair_pred pt))
     \<longrightarrow> repair_pt_au df = df)
   \<and> (''AU'' \<notin> set (columns df) \<and> ''AU'' \<in> set (columns (repair_pt_au df))
     \<longrightarrow> (\<exists>pt. map_of (cols df) ''PT'' = Some pt \<and> list_ex repair_pred pt))"
proof -
  have A: "repair_pt_au df = df"
    if "''PT'' \<notin> set (columns df) \<or>
      (\<forall>pt. map_of (cols df) ''PT'' = Some pt \<longrightarrow> \<not> list_ex repair_pred pt)"
    using that by (intro repair_pt_au_noop) (auto simp: not_in_columns)
  have B: "\<exists>pt. map_of (cols df) ''PT'' = Some pt \<and> list_ex repair_pred pt"
    if "''AU'' \<notin> set (columns df)" "''AU'' \<in> set (columns (repair_pt_au df))"
  proof (rule ccontr)
    assume "\<not> ?thesis"
    then have "repair_pt_au df = df" by (intro repair_pt_au_noop) auto
    with that show False by simp
  qed
  from A B show ?thesis by blast
qed

theorem repair_unchanged_without_match_witness:
  "repair_pt_au \<lparr>nrows = 1, cols = [(''TI'', [Str ''J Smith''])]\<rparr>
     = \<lparr>nrows = 1, cols = [(''TI'', [Str ''J Smith''])]\<rparr>
   \<and> repair_pt_au \<lparr>nrows = 2, cols = [(''PT'', [Str ''J'', Str ''Journal article''])]\<rparr>
     = \<lparr>nrows = 2, cols = [(''PT'', [Str ''J'', Str ''Journal article''])]\<rparr>
   \<and> ''AU'' \<in> set (columns (repair_pt_au \<lparr>nrows = 1, cols = [(''PT'', [Str ''J Smith''])]\<rparr>))
   \<and> list_ex repair_pred [Str ''J Smith'']"
proof -
  let ?a = "\<lparr>nrows = 1, cols = [(''TI'', [Str ''J Smith''])]\<rparr>"
  let ?b = "\<lparr>nrows = 2, cols = [(''PT'', [Str ''J'', Str ''Journal article''])]\<rparr>"
  let ?c = "\<lparr>nrows = 1, cols = [(''PT'', [Str ''J Smith''])]\<rparr>"
  have a: "''PT'' \<notin> set (columns ?a)" by (simp add: columns_def)
  have b: "\<forall>pt. map_of (cols ?b) ''PT'' = Some pt \<longrightarrow> \<not> list_ex repair_pred pt"
    by (simp add: repair_pred_def SPACE_def)
  have c1: "''AU'' \<notin> set (columns ?c)" by (simp add: columns_def)
  have c2: "''AU'' \<in> set (columns (repair_pt_au ?c))"
    by (simp add: repair_pt_au_def pt_mask_def repair_pred_def SPACE_def columns_def
        add_column_def set_column_def Let_def)
  from repair_unchanged_without_match[of ?a] a have 1: "repair_pt_au ?a = ?a" by blast
  from repair_unchanged_without_match[of ?b] b have 2: "repair_pt_au ?b = ?b" by blast
  from repair_unchanged_without_match[of ?c] c1 c2
  have "\<exists>pt. map_of (cols ?c) ''PT'' = Some pt \<and> list_ex repair_pred pt" by blast
  then have 3: "list_ex repair_pred [Str ''J Smith'']" by simp
  from 1 2 3 c2 show ?thesis by simp
qed


section \<open>Renaming\<close>

lemma map_of_cols_to_rename:
  "map_of (cols_to_rename rename df) c =
     (if c \<in> set (columns df) then map_of rename c else None)"
proof -
  have "map_of (filter (\<lambda>p. fst p \<in> A) ps) c = (if c \<in> A then map_of ps c else None)"
    for A and ps :: "(string \<times> string) list"
    by (induction ps) auto
  then show ?thesis by (simp add: cols_to_rename_def)
qed

lemma apply_rename_cols:
  "cols (apply_rename rename df) =
     map (\<lambda>p. (case map_of rename (fst p) of Some new \<Rightarrow> new | None \<Rightarrow> fst p, snd p)) (cols df)"
  by (simp add: apply_rename_def rename_columns_def map_of_cols_to_rename columns_def)

lemma apply_rename_nrows: "nrows (apply_rename rename df) = nrows df"
  by (simp add: apply_rename_def rename_columns_def)

lemma apply_rename_eq:
  "apply_rename rename df =
     df\<lparr>cols := map (\<lambda>p. (case map_of rename (fst p) of Some new \<Rightarrow> new | None \<Rightarrow> fst p, snd p))
                      (cols df)\<rparr>"
  using apply_rename_cols[of rename df] apply_rename_nrows[of rename df]
  by (simp add: apply_rename_def rename_columns_def)

lemma RENAME_MAP_values: "\<forall>new\<in>snd ` set RENAME_MAP. map_of RENAME_MAP new = None"
  by (simp add: RENAME_MAP_def)

lemma RENAME_MAP_targets: "map_of RENAME_MAP c = Some new \<Longrightarrow> map_of RENAME_MAP new = None"
  using RENAME_MAP_values map_of_SomeD[of RENAME_MAP c new] by force

text \<open>
  C9: renaming with the default map is idempotent on every table; it leaves the cells of
  every column alone, and a column whose label is not a key of the map, such as \<^verbatim>\<open>XX\<close>,
  stays where and as it is.
\<close>

theorem rename_idempotent:
  "apply_rename RENAME_MAP (apply_rename RENAME_MAP df) = apply_rename RENAME_MAP df
   \<and> map snd (cols (apply_rename RENAME_MAP df)) = map snd (cols df)
   \<and> (\<forall>j<length (cols df). fst (cols df ! j) \<notin> fst ` set RENAME_MAP \<longrightarrow>
         cols (apply_rename RENAME_MAP df) ! j = cols df ! j)
   \<and> ''XX'' \<notin> fst ` set RENAME_MAP"
proof -
  have A: "apply_rename RENAME_MAP (apply_rename RENAME_MAP df) = apply_rename RENAME_MAP df"
  proof -
    let ?r = "\<lambda>c. case map_of RENAME_MAP c of Some new \<Rightarrow> new | None \<Rightarrow> c"
    have "apply_rename RENAME_MAP (apply_rename RENAME_MAP df)
        = (apply_rename RENAME_MAP df)\<lparr>cols := map (\<lambda>p. (?r (fst p), snd p))
             (cols (apply_rename RENAME_MAP df))\<rparr>"
      by (rule apply_rename_eq)
    also have "cols (apply_rename RENAME_MAP df) = map (\<lambda>p. (?r (fst p), snd p)) (cols df)"
      by (rule apply_rename_cols)
    also have "map (\<lambda>p. (?r (fst p), snd p)) (map (\<lambda>p. (?r (fst p), snd p)) (cols df))
        = map (\<lambda>p. (?r (fst p), snd p)) (cols df)"
      by (auto simp: comp_def RENAME_MAP_targets split: option.splits)
    finally show ?thesis by (simp add: apply_rename_eq[of _ df])
  qed
  have B: "map snd (cols (apply_rename RENAME_MAP df)) = map snd (cols df)"
    by (simp add: apply_rename_cols comp_def)
  have C: "cols (apply_rename RENAME_MAP df) ! j = cols df ! j"
    if "j < length (cols df)" "fst (cols df ! j) \<notin> fst ` set RENAME_MAP" for j
  proof -
    from that(2) have "map_of RENAME_MAP (fst (cols df ! j)) = None"
      by (simp add: map_of_eq_None_iff)
    with that(1) show ?thesis by (simp add: apply_rename_cols)
  qed
  have D: "''XX'' \<notin> fst ` set RENAME_MAP" by (simp add: RENAME_MAP_def)
  from A B C D show ?thesis by blast
qed

theorem rename_idempotent_witness:
  "apply_rename RENAME_MAP \<lparr>nrows = 1, cols = [(''PT'', [Str ''J'']), (''XX'', [Str ''x''])]\<rparr>
     = \<lparr>nrows = 1, cols = [(''Publication Type'', [Str ''J'']), (''XX'', [Str ''x''])]\<rparr>
   \<and> apply_rename RENAME_MAP (apply_rename RENAME_MAP
        \<lparr>nrows = 1, cols = [(''PT'', [Str ''J'']), (''XX'', [Str ''x''])]\<rparr>)
     = \<lparr>nrows = 1, cols = [(''Publication Type'', [Str ''J'']), (''XX'', [Str ''x''])]\<rparr>
   \<and> cols (apply_rename RENAME_MAP
        \<lparr>nrows = 1, cols = [(''PT'', [Str ''J'']), (''XX'', [Str ''x''])]\<rparr>) ! 1 = (''XX'', [Str ''x''])"
proof -
  let ?df = "\<lparr>nrows = 1, cols = [(''PT'', [Str ''J'']), (''XX'', [Str ''x''])]\<rparr>"
  have once: "apply_rename RENAME_MAP ?df
     = \<lparr>nrows = 1, cols = [(''Publication Type'', [Str ''J'']), (''XX'', [Str ''x''])]\<rparr>"
    by (simp add: apply_rename_def rename_columns_def cols_to_rename_def columns_def RENAME_MAP_def)
  have j: "(1::nat) < length (cols ?df)" by simp
  have k: "fst (cols ?df ! 1) \<notin> fst ` set RENAME_MAP" by (simp add: RENAME_MAP_def)
  from rename_idempotent[of ?df] j k
  have "apply_rename RENAME_MAP (apply_rename RENAME_MAP ?df) = apply_rename RENAME_MAP ?df"
    and "cols (apply_rename RENAME_MAP ?df) ! 1 = cols ?df ! 1" by blast+
  with once show ?thesis by simp
qed


section \<open>Missing input\<close>

lemma parse_table_error:
  "parse_table f = Inl e \<Longrightarrow> e = EmptyDataError ''No columns to parse from file'' \<or> e = OutsideModel"
  by (auto simp: parse_table_def Let_def split: list.splits if_splits)

lemma read_csv_FileNotFoundError:
  "read_csv path e = Inl (FileNotFoundError msg) \<longleftrightarrow>
     (\<exists>nm. e = DanglingLink nm) \<and>
     msg = os_error_message ''[Errno 2] No such file or directory'' path"
  by (cases e) (auto simp: read_csv_def dest: parse_table_error)

lemma load_frames_with_Inl:
  "load_frames_with loader d fs = Inl e \<longleftrightarrow>
     (\<exists>k<length fs. loader (entry_path d (entry_name (fs ! k))) (fs ! k) = Inl e \<and>
        (\<forall>j<k. \<exists>fr. loader (entry_path d (entry_name (fs ! j))) (fs ! j) = Inr fr))"
proof (induction fs)
  case Nil
  then show ?case by simp
next
  case (Cons f fs)
  let ?ld = "\<lambda>x. loader (entry_path d (entry_name x)) x"
  let ?R = "\<lambda>xs. \<exists>k<length xs. ?ld (xs ! k) = Inl e \<and> (\<forall>j<k. \<exists>fr. ?ld (xs ! j) = Inr fr)"
  show ?case
  proof (cases "?ld f")
    case (Inl e')
    have "?R (f # fs) \<longleftrightarrow> e' = e"
    proof
      assume "?R (f # fs)"
      then obtain k where k: "k < length (f # fs)" "?ld ((f # fs) ! k) = Inl e"
        "\<forall>j<k. \<exists>fr. ?ld ((f # fs) ! j) = Inr fr" by blast
      have "k = 0"
      proof (rule ccontr)
        assume "k \<noteq> 0"
        then have "0 < k" by simp
        with k(3) obtain fr where "?ld ((f # fs) ! 0) = Inr fr" by blast
        with Inl show False by simp
      qed
      with k(2) Inl show "e' = e" by simp
    next
      assume "e' = e"
      with Inl show "?R (f # fs)" by (intro exI[of _ 0]) simp
    qed
    with Inl show ?thesis by auto
  next
    case (Inr frame)
    have "?R (f # fs) \<longleftrightarrow> ?R fs"
    proof
      assume "?R (f # fs)"
      then obtain k where k: "k < length (f # fs)" "?ld ((f # fs) ! k) = Inl e"
        "\<forall>j<k. \<exists>fr. ?ld ((f # fs) ! j) = Inr fr" by blast
      from k(2) Inr obtain m where m: "k = Suc m" by (cases k) auto
      have "\<forall>j<m. \<exists>fr. ?ld (fs ! j) = Inr fr"
        using k(3) m by (metis Suc_less_eq nth_Cons_Suc)
      with k m show "?R fs" by (intro exI[of _ m]) simp
    next
      assume "?R fs"
      then obtain m where m: "m < length fs" "?ld (fs ! m) = Inl e"
        "\<forall>j<m. \<exists>fr. ?ld (fs ! j) = Inr fr" by blast
      have "\<forall>j<Suc m. \<exists>fr. ?ld ((f # fs) ! j) = Inr fr"
        using m(3) Inr by (auto simp: nth_Cons split: nat.splits)
      with m show "?R (f # fs)" by (intro exI[of _ "Suc m"]) simp
    qed
    with Inr Cons.IH show ?thesis by (auto split: sum.splits)
  qed
qed

lemma read_wos_exports_with_Inl:
  assumes "listing fld = Some entries" and "glob_txt entries \<noteq> []"
  shows "read_wos_exports_with loader fld rename = Inl e \<longleftrightarrow>
     load_frames_with loader (folder_str fld) (sort_key entry_name (glob_txt entries)) = Inl e"
proof -
  let ?txt = "sort_key entry_name (glob_txt entries)"
  from assms(2) have ne: "?txt \<noteq> []" by (metis length_0_conv length_sort)
  have "frames \<noteq> []" if "load_frames_with loader (folder_str fld) ?txt = Inr frames" for frames
  proof
    assume "frames = []"
    with that ne show False by (cases ?txt) (auto split: sum.splits)
  qed
  with assms(1) ne show ?thesis
    by (auto simp: read_wos_exports_with_def pd_concat_def split: sum.splits)
qed

text \<open>
  C7, as stated, fails: in an existing directory whose only entry is a link
  \<^verbatim>\<open>x.txt\<close> to a file that is gone, \<^verbatim>\<open>glob\<close> finds a match and \<^verbatim>\<open>read_wos_exports\<close> still
  raises \<^verbatim>\<open>FileNotFoundError\<close>: the one \<^verbatim>\<open>pd.read_csv\<close> raises, whose message is about the
  file.
\<close>

theorem existing_folder_file_not_found_counterexample:
  "listing \<lparr>folder_str = ''/data'', resolved = ''/data'',
            listing = Some [DanglingLink ''x.txt'']\<rparr> = Some [DanglingLink ''x.txt'']
   \<and> glob_txt [DanglingLink ''x.txt''] = [DanglingLink ''x.txt'']
   \<and> read_wos_exports
        \<lparr>folder_str = ''/data'', resolved = ''/data'',
         listing = Some [DanglingLink ''x.txt'']\<rparr> RENAME_MAP
     = Inl (FileNotFoundError
              (os_error_message ''[Errno 2] No such file or directory'' ''/data/x.txt''))"
  by code_simp

text \<open>
  C7, amended: \<^verbatim>\<open>read_wos_exports\<close> raises \<^verbatim>\<open>FileNotFoundError\<close> with a message that holds
  the resolved path of the directory when the directory does not exist and when it has no
  entry matching \<^verbatim>\<open>*.txt\<close>, and returns no table then. It raises \<^verbatim>\<open>FileNotFoundError\<close> in
  exactly one more case: \<^verbatim>\<open>pd.read_csv\<close> raises it for the first matching entry, in sorted
  order, that it does not load, as it does for a link to a missing file. So where
  \<^verbatim>\<open>pd.read_csv\<close> raises no \<^verbatim>\<open>FileNotFoundError\<close>, \<^verbatim>\<open>read_wos_exports\<close> raises it exactly
  when the directory does not exist or has no match.
\<close>

theorem file_not_found_cases:
  "(listing fld = None \<longrightarrow>
      read_wos_exports_with loader fld rename
        = Inl (FileNotFoundError (resolved fld @ '' does not exist.'')))
   \<and> (\<forall>entries. listing fld = Some entries \<and> glob_txt entries = [] \<longrightarrow>
        read_wos_exports_with loader fld rename
          = Inl (FileNotFoundError (''No .txt files found in '' @ resolved fld)))
   \<and> ((\<exists>msg. read_wos_exports_with loader fld rename = Inl (FileNotFoundError msg)) \<longleftrightarrow>
        listing fld = None \<or>
        (\<exists>entries. listing fld = Some entries \<and>
           (glob_txt entries = [] \<or>
            (\<exists>k<length (glob_txt entries).
               (\<exists>msg. loader (entry_path (folder_str fld)
                               (entry_name (sort_key entry_name (glob_txt entries) ! k)))
                            (sort_key entry_name (glob_txt entries) ! k)
                       = Inl (FileNotFoundError msg)) \<and>
               (\<forall>j<k. \<exists>fr.
                  loader (entry_path (folder_str fld)
                            (entry_name (sort_key entry_name (glob_txt entries) ! j)))
                         (sort_key entry_name (glob_txt entries) ! j) = Inr fr)))))
   \<and> ((\<forall>path e msg. loader path e \<noteq> Inl (FileNotFoundError msg))
        \<longrightarrow> ((\<exists>msg. read_wos_exports_with loader fld rename = Inl (FileNotFoundError msg)) \<longleftrightarrow>
              listing fld = None \<or> (\<exists>entries. listing fld = Some entries \<and> glob_txt entries = [])))
   \<and> (read_csv path e = Inl (FileNotFoundError msg) \<longleftrightarrow>
        (\<exists>nm. e = DanglingLink nm) \<and>
        msg = os_error_message ''[Errno 2] No such file or directory'' path)"
proof -
  let ?fnf = "\<exists>msg. read_wos_exports_with loader fld rename = Inl (FileNotFoundError msg)"
  let ?txt = "\<lambda>entries. sort_key entry_name (glob_txt entries)"
  let ?ld = "\<lambda>x. loader (entry_path (folder_str fld) (entry_name x)) x"
  let ?first = "\<lambda>entries. \<exists>k<length (glob_txt entries).
               (\<exists>msg. ?ld (?txt entries ! k) = Inl (FileNotFoundError msg)) \<and>
               (\<forall>j<k. \<exists>fr. ?ld (?txt entries ! j) = Inr fr)"
  have A: "read_wos_exports_with loader fld rename
      = Inl (FileNotFoundError (resolved fld @ '' does not exist.''))"
    if "listing fld = None"
    using that by (simp add: read_wos_exports_with_def)
  have B: "read_wos_exports_with loader fld rename
          = Inl (FileNotFoundError (''No .txt files found in '' @ resolved fld))"
    if "listing fld = Some entries" "glob_txt entries = []" for entries
    using that by (simp add: read_wos_exports_with_def)
  have C: "?fnf \<longleftrightarrow> ?first entries"
    if l: "listing fld = Some entries" and ne: "glob_txt entries \<noteq> []" for entries
  proof -
    have "?fnf \<longleftrightarrow> (\<exists>msg. load_frames_with loader (folder_str fld) (?txt entries)
                               = Inl (FileNotFoundError msg))"
      by (simp add: read_wos_exports_with_Inl[OF l ne])
    also have "\<dots> \<longleftrightarrow> ?first entries"
      unfolding load_frames_with_Inl length_sort by blast
    finally show ?thesis .
  qed
  have D: "?fnf \<longleftrightarrow> listing fld = None \<or>
        (\<exists>entries. listing fld = Some entries \<and> (glob_txt entries = [] \<or> ?first entries))"
  proof (cases "listing fld")
    case None
    with A show ?thesis by auto
  next
    case (Some entries)
    show ?thesis
    proof (cases "glob_txt entries = []")
      case True
      with Some B[OF Some True] show ?thesis by auto
    next
      case False
      with Some C[OF Some False] show ?thesis by auto
    qed
  qed
  have E: "?fnf \<longleftrightarrow> listing fld = None \<or> (\<exists>entries. listing fld = Some entries \<and> glob_txt entries = [])"
    if nl: "\<forall>path e msg. loader path e \<noteq> Inl (FileNotFoundError msg)"
  proof -
    from nl have "\<not> ?first entries" for entries by blast
    with D show ?thesis by blast
  qed
  have F: "read_csv path e = Inl (FileNotFoundError msg) \<longleftrightarrow>
        (\<exists>nm. e = DanglingLink nm) \<and>
        msg = os_error_message ''[Errno 2] No such file or directory'' path"
    by (rule read_csv_FileNotFoundError)
  from A B D E F show ?thesis by blast
qed

theorem file_not_found_cases_witness:
  "read_wos_exports \<lparr>folder_str = ''wos'', resolved = ''/data/wos'', listing = None\<rparr> RENAME_MAP
     = Inl (FileNotFoundError ''/data/wos does not exist.'')
   \<and> read_wos_exports \<lparr>folder_str = ''wos'', resolved = ''/data/wos'',
        listing = Some [TextFile \<lparr>file_name = ''notes.csv'', file_lines = [''PT'']\<rparr>]\<rparr> RENAME_MAP
     = Inl (FileNotFoundError ''No .txt files found in /data/wos'')
   \<and> (\<exists>msg. read_wos_exports \<lparr>folder_str = ''wos'', resolved = ''/data/wos'',
        listing = Some [DanglingLink ''b.txt'',
                        TextFile \<lparr>file_name = ''a.txt'', file_lines = [''PT'']\<rparr>]\<rparr> RENAME_MAP
     = Inl (FileNotFoundError msg))"
proof -
  let ?a = "\<lparr>folder_str = ''wos'', resolved = ''/data/wos'', listing = None\<rparr>"
  let ?es = "[TextFile \<lparr>file_name = ''notes.csv'', file_lines = [''PT'']\<rparr>]"
  let ?b = "\<lparr>folder_str = ''wos'', resolved = ''/data/wos'', listing = Some ?es\<rparr>"
  let ?cs = "[DanglingLink ''b.txt'', TextFile \<lparr>file_name = ''a.txt'', file_lines = [''PT'']\<rparr>]"
  let ?c = "\<lparr>folder_str = ''wos'', resolved = ''/data/wos'', listing = Some ?cs\<rparr>"
  have a: "listing ?a = None" by simp
  have b: "listing ?b = Some ?es \<and> glob_txt ?es = []"
    by (simp add: glob_txt_def endswith_def)
  have g: "glob_txt ?cs = ?cs" by code_simp
  have st: "sort_key entry_name ?cs
      = [TextFile \<lparr>file_name = ''a.txt'', file_lines = [''PT'']\<rparr>, DanglingLink ''b.txt'']"
    by code_simp
  have ld: "\<exists>fr. read_csv (entry_path ''wos'' ''a.txt'')
                (TextFile \<lparr>file_name = ''a.txt'', file_lines = [''PT'']\<rparr>) = Inr fr"
    by (simp add: read_csv_def parse_table_def unskipped_lines_def drop_bom_def startswith_def
        BOM_def blank_line_def SPACE_def plain_table_def TAB_def)
  have c: "\<exists>entries. listing ?c = Some entries \<and>
           (glob_txt entries = [] \<or>
            (\<exists>k<length (glob_txt entries).
               (\<exists>msg. read_csv (entry_path (folder_str ?c)
                              (entry_name (sort_key entry_name (glob_txt entries) ! k)))
                           (sort_key entry_name (glob_txt entries) ! k)
                       = Inl (FileNotFoundError msg)) \<and>
               (\<forall>j<k. \<exists>fr.
                  read_csv (entry_path (folder_str ?c)
                              (entry_name (sort_key entry_name (glob_txt entries) ! j)))
                           (sort_key entry_name (glob_txt entries) ! j) = Inr fr)))"
  proof (intro exI[of _ ?cs] conjI disjI2 exI[of _ 1])
    show "listing ?c = Some ?cs" by simp
    show "1 < length (glob_txt ?cs)" by (simp add: g)
    show "\<exists>msg. read_csv (entry_path (folder_str ?c)
                              (entry_name (sort_key entry_name (glob_txt ?cs) ! 1)))
                           (sort_key entry_name (glob_txt ?cs) ! 1) = Inl (FileNotFoundError msg)"
      unfolding g st by (simp add: read_csv_def)
    show "\<forall>j<1. \<exists>fr. read_csv (entry_path (folder_str ?c)
                              (entry_name (sort_key entry_name (glob_txt ?cs) ! j)))
                           (sort_key entry_name (glob_txt ?cs) ! j) = Inr fr"
      unfolding g st using ld by simp
  qed
  note inst = file_not_found_cases[where loader = read_csv and rename = RENAME_MAP
      and path = "''wos/b.txt''" and e = "DanglingLink ''b.txt''"
      and msg = "os_error_message ''[Errno 2] No such file or directory'' ''wos/b.txt''",
      folded read_wos_exports_def]
  from inst[of ?a] a
  have 1: "read_wos_exports ?a RENAME_MAP = Inl (FileNotFoundError (resolved ?a @ '' does not exist.''))"
    by (elim conjE) simp
  from inst[of ?b] b
  have 2: "read_wos_exports ?b RENAME_MAP
     = Inl (FileNotFoundError (''No .txt files found in '' @ resolved ?b))"
    by (elim conjE) simp
  have 3: "\<exists>msg. read_wos_exports ?c RENAME_MAP = Inl (FileNotFoundError msg)"
    using inst[of ?c] c by (elim conjE) blast
  from 1 2 3 show ?thesis by simp
qed


section \<open>Loading and merging\<close>

lemma parse_table_Inr:
  "parse_table f = Inr frame \<longleftrightarrow>
     (\<exists>h rest. unskipped_lines f = h # rest \<and>
        plain_table (h # rest) (split_on TAB h) (map (split_on TAB) rest) \<and>
        frame = \<lparr>nrows = length rest,
                  cols = map (\<lambda>j. (split_on TAB h ! j,
                                     map (\<lambda>r. Str (field r j)) (map (split_on TAB) rest)))
                             [0..<length (split_on TAB h)]\<rparr>)"
  by (auto simp: parse_table_def Let_def split: list.splits if_splits)

lemma plain_file_parse_table: "plain_file f \<longleftrightarrow> (\<exists>frame. parse_table f = Inr frame)"
  by (auto simp: parse_table_Inr plain_file_def split: list.splits)

lemma parse_table_columns:
  assumes "parse_table f = Inr frame"
  shows "\<exists>h rest. unskipped_lines f = h # rest \<and>
           columns frame = split_on TAB h \<and> nrows frame = length rest \<and>
           distinct (split_on TAB h) \<and>
           list_all (\<lambda>p. length (snd p) = length rest) (cols frame) \<and> no_nan frame"
proof -
  from assms obtain h rest where
    b: "unskipped_lines f = h # rest" and
    pl: "plain_table (h # rest) (split_on TAB h) (map (split_on TAB) rest)" and
    fr: "frame = \<lparr>nrows = length rest,
                     cols = map (\<lambda>j. (split_on TAB h ! j,
                                        map (\<lambda>r. Str (field r j)) (map (split_on TAB) rest)))
                                [0..<length (split_on TAB h)]\<rparr>"
    unfolding parse_table_Inr by blast
  have "columns frame = map (\<lambda>j. split_on TAB h ! j) [0..<length (split_on TAB h)]"
    by (simp add: fr columns_def comp_def)
  also have "\<dots> = split_on TAB h" by (rule map_nth)
  finally have c: "columns frame = split_on TAB h" .
  have l: "list_all (\<lambda>p. length (snd p) = length rest) (cols frame)"
    by (simp add: fr list_all_iff)
  have n: "no_nan frame"
    by (auto simp: fr no_nan_def list_all_iff)
  from b c fr pl l n show ?thesis by (auto simp: plain_table_def)
qed

lemma wf_df_parse_table: "parse_table f = Inr frame \<Longrightarrow> wf_df frame"
  using parse_table_columns[of f frame] by (auto simp: wf_df_def)

lemma read_csv_Inr: "read_csv path e = Inr frame \<longleftrightarrow> (\<exists>f. e = TextFile f \<and> parse_table f = Inr frame)"
  by (cases e) (auto simp: read_csv_def)

lemma wf_df_read_csv: "read_csv path e = Inr frame \<Longrightarrow> wf_df frame"
  by (auto simp: read_csv_Inr wf_df_parse_table)

lemma no_nan_read_csv: "read_csv path e = Inr frame \<Longrightarrow> no_nan frame"
  using parse_table_columns by (auto simp: read_csv_Inr)

lemma set_loc_set: "set (loc_set msk vs col) \<subseteq> set vs \<union> set col"
  by (induction msk vs col rule: loc_set.induct) auto

lemma loc_get_map: "loc_get (map P xs) xs = filter P xs"
  by (induction xs) (auto simp: loc_get_def)

lemma str_split_expand_matched:
  "repair_pred c \<Longrightarrow> fst (str_split_expand c) \<noteq> NaN \<and> snd (str_split_expand c) \<noteq> NaN"
proof (cases c)
  case (Str s)
  assume "repair_pred c"
  with Str obtain l r where "s = l # SPACE # r" "l \<in> set ''JBSP''"
    by (auto simp: repair_pred_Str)
  with Str show ?thesis by (simp only: str_split_expand_glued) simp
next
  case NaN
  assume "repair_pred c"
  with NaN show ?thesis by (simp add: repair_pred_NaN)
qed

lemma no_nan_set_column:
  "no_nan df \<Longrightarrow> (\<And>col. NaN \<notin> set col \<Longrightarrow> NaN \<notin> set (f col)) \<Longrightarrow> no_nan (set_column c f df)"
  by (auto simp: no_nan_def set_column_def list_all_iff)

lemma no_nan_add_column: "no_nan df \<Longrightarrow> no_nan (add_column c (Str s) df)"
  by (auto simp: no_nan_def add_column_def list_all_iff)

lemma no_nan_loc_set_parts:
  assumes "NaN \<notin> set col"
  shows "NaN \<notin> set (loc_set (pt_mask pt) (map (fst \<circ> str_split_expand) (loc_get (pt_mask pt) pt)) col)"
    and "NaN \<notin> set (loc_set (pt_mask pt) (map (snd \<circ> str_split_expand) (loc_get (pt_mask pt) pt)) col)"
proof -
  have g: "loc_get (pt_mask pt) pt = filter repair_pred pt"
    by (simp add: pt_mask_def loc_get_map)
  have 1: "NaN \<notin> set (map (fst \<circ> str_split_expand) (filter repair_pred pt))"
    using str_split_expand_matched by (auto simp: image_iff) metis
  have 2: "NaN \<notin> set (map (snd \<circ> str_split_expand) (filter repair_pred pt))"
    using str_split_expand_matched by (auto simp: image_iff) metis
  from 1 assms
    set_loc_set[of "pt_mask pt" "map (fst \<circ> str_split_expand) (filter repair_pred pt)" col]
  show "NaN \<notin> set (loc_set (pt_mask pt)
                        (map (fst \<circ> str_split_expand) (loc_get (pt_mask pt) pt)) col)"
    unfolding g by blast
  from 2 assms
    set_loc_set[of "pt_mask pt" "map (snd \<circ> str_split_expand) (filter repair_pred pt)" col]
  show "NaN \<notin> set (loc_set (pt_mask pt)
                        (map (snd \<circ> str_split_expand) (loc_get (pt_mask pt) pt)) col)"
    unfolding g by blast
qed

lemma no_nan_repair_pt_au: "no_nan df \<Longrightarrow> no_nan (repair_pt_au df)"
  by (auto simp: repair_pt_au_def Let_def no_nan_loc_set_parts
      intro!: no_nan_set_column no_nan_add_column split: option.splits)

lemma load_frames_with_Inr:
  "load_frames_with loader d fs = Inr frames \<Longrightarrow>
   length frames = length fs \<and>
   (\<forall>k<length fs. \<exists>frame. loader (entry_path d (entry_name (fs ! k))) (fs ! k) = Inr frame \<and>
                            frames ! k = repair_pt_au frame)"
proof (induction fs arbitrary: frames)
  case Nil
  then show ?case by simp
next
  case (Cons f fs)
  from Cons.prems obtain frame rest where
    f: "loader (entry_path d (entry_name f)) f = Inr frame"
    and r: "load_frames_with loader d fs = Inr rest"
    and fr: "frames = repair_pt_au frame # rest"
    by (auto split: sum.splits)
  from Cons.IH[OF r] f fr show ?case
    by (auto simp: nth_Cons split: nat.splits)
qed

lemma load_frames_with_all:
  assumes "load_frames_with loader d fs = Inr frames"
    and "\<And>path e fr. loader path e = Inr fr \<Longrightarrow> P fr"
    and "\<And>fr. P fr \<Longrightarrow> P (repair_pt_au fr)"
  shows "list_all P frames"
proof -
  have "P (frames ! k)" if "k < length frames" for k
    using load_frames_with_Inr[OF assms(1)] that assms(2,3) by (metis (no_types))
  then show ?thesis by (auto simp: list_all_iff in_set_conv_nth)
qed

lemma concat_nth_offset:
  "k < length xs \<Longrightarrow> i < length (g (xs ! k)) \<Longrightarrow>
   concat (map g xs) ! (sum_list (map (\<lambda>x. length (g x)) (take k xs)) + i) = g (xs ! k) ! i"
proof (induction xs arbitrary: k)
  case Nil
  then show ?case by simp
next
  case (Cons x xs)
  show ?case
  proof (cases k)
    case 0
    with Cons.prems show ?thesis by (simp add: nth_append)
  next
    case (Suc m)
    with Cons.prems Cons.IH[of m] show ?thesis by (simp add: nth_append add.assoc)
  qed
qed

lemma length_column_or_nan: "wf_df df \<Longrightarrow> length (column_or_nan c df) = nrows df"
  by (auto simp: column_or_nan_def wf_df_length split: option.splits)

lemma column_or_nan_nth:
  "i < nrows df \<Longrightarrow>
   column_or_nan c df ! i = (case map_of (cols df) c of None \<Rightarrow> NaN | Some col \<Rightarrow> col ! i)"
  by (simp add: column_or_nan_def split: option.splits)

lemma pd_concat_cell:
  assumes wf: "list_all wf_df frames" and k: "k < length frames" and i: "i < nrows (frames ! k)"
    and j: "j < length (union_columns frames)" and c: "pd_concat frames = Inr df"
  shows "j < length (cols df) \<and>
         snd (cols df ! j) ! (sum_list (map nrows (take k frames)) + i) =
           (case map_of (cols (frames ! k)) (union_columns frames ! j) of
              None \<Rightarrow> NaN | Some col \<Rightarrow> col ! i)"
proof -
  let ?c = "union_columns frames ! j"
  from c k have df: "cols df = map (\<lambda>c. (c, concat (map (column_or_nan c) frames))) (union_columns frames)"
    by (auto simp: pd_concat_def split: if_splits)
  have wfk: "wf_df (frames ! k)" using wf k by (simp add: list_all_iff)
  have eq: "map (\<lambda>x. length (column_or_nan ?c x)) (take k frames) = map nrows (take k frames)"
    using wf by (intro map_cong refl length_column_or_nan) (auto simp: list_all_iff dest: in_set_takeD)
  have "i < length (column_or_nan ?c (frames ! k))"
    using i wfk by (simp add: length_column_or_nan)
  with k have "concat (map (column_or_nan ?c) frames) !
        (sum_list (map (\<lambda>x. length (column_or_nan ?c x)) (take k frames)) + i)
      = column_or_nan ?c (frames ! k) ! i"
    by (rule concat_nth_offset)
  then have "concat (map (column_or_nan ?c) frames) ! (sum_list (map nrows (take k frames)) + i)
      = column_or_nan ?c (frames ! k) ! i"
    unfolding eq .
  with i j show ?thesis by (simp add: df column_or_nan_nth)
qed

lemma read_wos_exports_with_loaded:
  assumes "listing fld = Some entries"
    and "load_frames_with loader (folder_str fld) (sort_key entry_name (glob_txt entries)) = Inr frames"
    and "frames \<noteq> []"
  shows "\<exists>df. pd_concat frames = Inr df \<and>
              read_wos_exports_with loader fld rename = Inr (apply_rename rename df)"
proof -
  from assms(2) have "length frames = length (sort_key entry_name (glob_txt entries))"
    by (simp add: load_frames_with_Inr)
  with assms(3) have "sort_key entry_name (glob_txt entries) \<noteq> []"
    by (metis length_0_conv)
  with assms show ?thesis
    by (simp add: read_wos_exports_with_def pd_concat_def)
qed

text \<open>
  C1, as stated, fails: with one export of columns \<^verbatim>\<open>PT, AU, TI\<close> and one of columns
  \<^verbatim>\<open>PT, TI, AB\<close>, the merged table holds the missing value, not the empty string, under
  \<^verbatim>\<open>Abstract\<close> for the row of the first file and under \<^verbatim>\<open>Author\<close> for the row of the second.
\<close>

theorem unified_table_missing_cell_counterexample:
  "read_wos_exports
     \<lparr>folder_str = ''/data'', resolved = ''/data'',
      listing = Some [TextFile \<lparr>file_name = ''b.txt'',
                         file_lines = [''PT'' @ [TAB] @ ''TI'' @ [TAB] @ ''AB'',
                                       ''J'' @ [TAB] @ ''T2'' @ [TAB] @ ''abs'']\<rparr>,
                      TextFile \<lparr>file_name = ''a.txt'',
                         file_lines = [''PT'' @ [TAB] @ ''AU'' @ [TAB] @ ''TI'',
                                       ''J'' @ [TAB] @ ''Doe'' @ [TAB] @ ''T1'']\<rparr>]\<rparr>
     RENAME_MAP
   = Inr \<lparr>nrows = 2,
          cols = [(''Publication Type'', [Str ''J'', Str ''J'']),
                  (''Author'', [Str ''Doe'', NaN]),
                  (''Title'', [Str ''T1'', Str ''T2'']),
                  (''Abstract'', [NaN, Str ''abs''])]\<rparr>
   \<and> NaN \<noteq> Str []"
  by code_simp

text \<open>
  C1, amended: whatever tables \<^verbatim>\<open>pd.read_csv\<close> returns for the files, as long as they are
  well formed (unique labels, columns as long as the index): in the table
  \<^verbatim>\<open>read_wos_exports\<close> returns, the cell of row \<open>i\<close> of the \<open>k\<close>-th loaded and repaired
  file under the \<open>j\<close>-th merged column is the missing value when that file's table has no
  such column, and the file's own cell otherwise; that cell is a string when
  \<^verbatim>\<open>pd.read_csv\<close> returns tables without missing values.
\<close>

theorem absent_column_cells_are_nan:
  assumes "listing fld = Some entries"
    and "load_frames_with loader (folder_str fld) (sort_key entry_name (glob_txt entries))
           = Inr frames"
    and "\<forall>path e fr. loader path e = Inr fr \<longrightarrow> wf_df fr"
    and "k < length frames" and "i < nrows (frames ! k)" and "j < length (union_columns frames)"
  shows "\<exists>out. read_wos_exports_with loader fld rename = Inr out \<and> j < length (cols out) \<and>
           snd (cols out ! j) ! (sum_list (map nrows (take k frames)) + i) =
             (case map_of (cols (frames ! k)) (union_columns frames ! j) of
                None \<Rightarrow> NaN
              | Some col \<Rightarrow> col ! i) \<and>
           ((\<forall>path e fr. loader path e = Inr fr \<longrightarrow> no_nan fr) \<longrightarrow>
            (\<forall>col. map_of (cols (frames ! k)) (union_columns frames ! j) = Some col \<longrightarrow>
                   (\<exists>s. col ! i = Str s)))"
proof -
  from assms(4) have ne: "frames \<noteq> []" by auto
  from read_wos_exports_with_loaded[OF assms(1,2) ne] obtain df where
    c: "pd_concat frames = Inr df" and
    r: "read_wos_exports_with loader fld rename = Inr (apply_rename rename df)" by blast
  have wf: "list_all wf_df frames"
    using assms(2) by (rule load_frames_with_all) (use assms(3) wf_df_repair_pt_au in blast)+
  from pd_concat_cell[OF wf assms(4,5,6) c]
  have "j < length (cols df)" and
    "snd (cols df ! j) ! (sum_list (map nrows (take k frames)) + i) =
       (case map_of (cols (frames ! k)) (union_columns frames ! j) of
          None \<Rightarrow> NaN | Some col \<Rightarrow> col ! i)" by simp_all
  then have cell: "j < length (cols (apply_rename rename df)) \<and>
      snd (cols (apply_rename rename df) ! j) ! (sum_list (map nrows (take k frames)) + i) =
       (case map_of (cols (frames ! k)) (union_columns frames ! j) of
          None \<Rightarrow> NaN | Some col \<Rightarrow> col ! i)"
    by (simp add: apply_rename_cols)
  have str: "\<exists>s. col ! i = Str s"
    if nn: "\<forall>path e fr. loader path e = Inr fr \<longrightarrow> no_nan fr"
      and col: "map_of (cols (frames ! k)) (union_columns frames ! j) = Some col" for col
  proof -
    have "list_all no_nan frames"
      using assms(2) by (rule load_frames_with_all) (use nn no_nan_repair_pt_au in blast)+
    with assms(4) have "no_nan (frames ! k)" by (simp add: list_all_iff)
    with col have "NaN \<notin> set col"
      by (auto simp: no_nan_def list_all_iff dest!: map_of_SomeD)
    moreover have "wf_df (frames ! k)" using wf assms(4) by (simp add: list_all_iff)
    then have "length col = nrows (frames ! k)" using col by (rule wf_df_length)
    with assms(5) have "col ! i \<in> set col" by simp
    ultimately show ?thesis by (cases "col ! i") auto
  qed
  from r cell str show ?thesis by blast
qed

theorem absent_column_cells_are_nan_witness:
  "\<exists>out. read_wos_exports
     \<lparr>folder_str = ''/data'', resolved = ''/data'',
      listing = Some [TextFile \<lparr>file_name = ''b.txt'',
                         file_lines = [''PT'' @ [TAB] @ ''TI'' @ [TAB] @ ''AB'',
                                       ''J'' @ [TAB] @ ''T2'' @ [TAB] @ ''abs'']\<rparr>,
                      TextFile \<lparr>file_name = ''a.txt'',
                         file_lines = [''PT'' @ [TAB] @ ''AU'' @ [TAB] @ ''TI'',
                                       ''J Doe'' @ [TAB] @ '''' @ [TAB] @ ''T1'']\<rparr>]\<rparr>
     RENAME_MAP = Inr out
   \<and> snd (cols out ! 3) ! 0 = NaN \<and> (\<exists>s. snd (cols out ! 1) ! 0 = Str s)"
proof -
  let ?b = "TextFile \<lparr>file_name = ''b.txt'',
                         file_lines = [''PT'' @ [TAB] @ ''TI'' @ [TAB] @ ''AB'',
                                       ''J'' @ [TAB] @ ''T2'' @ [TAB] @ ''abs'']\<rparr>"
  let ?a = "TextFile \<lparr>file_name = ''a.txt'',
                         file_lines = [''PT'' @ [TAB] @ ''AU'' @ [TAB] @ ''TI'',
                                       ''J Doe'' @ [TAB] @ '''' @ [TAB] @ ''T1'']\<rparr>"
  let ?fld = "\<lparr>folder_str = ''/data'', resolved = ''/data'', listing = Some [?b, ?a]\<rparr>"
  let ?frames = "[\<lparr>nrows = 1, cols = [(''PT'', [Str ''J'']), (''AU'', [Str ''Doe'']), (''TI'', [Str ''T1''])]\<rparr>,
                  \<lparr>nrows = 1, cols = [(''PT'', [Str ''J'']), (''TI'', [Str ''T2'']), (''AB'', [Str ''abs''])]\<rparr>]"
  have h1: "listing ?fld = Some [?b, ?a]" by simp
  have h2: "load_frames_with read_csv (folder_str ?fld) (sort_key entry_name (glob_txt [?b, ?a]))
              = Inr ?frames" by code_simp
  have h3: "\<forall>path e fr. read_csv path e = Inr fr \<longrightarrow> wf_df fr"
    using wf_df_read_csv by blast
  have h3': "\<forall>path e fr. read_csv path e = Inr fr \<longrightarrow> no_nan fr"
    using no_nan_read_csv by blast
  have u: "union_columns ?frames = [''PT'', ''AU'', ''TI'', ''AB'']" by code_simp
  have h4: "0 < length ?frames" by simp
  have h5: "0 < nrows (?frames ! 0)" by simp
  have h6: "3 < length (union_columns ?frames)" "1 < length (union_columns ?frames)"
    unfolding u by simp_all
  from absent_column_cells_are_nan[OF h1 h2 h3 h4 h5 h6(1), of RENAME_MAP, unfolded u]
       absent_column_cells_are_nan[OF h1 h2 h3 h4 h5 h6(2), of RENAME_MAP, unfolded u] h3'
  show ?thesis unfolding read_wos_exports_def by auto
qed

lemma read_wos_exports_no_header_error:
  "read_wos_exports fld rename \<noteq> Inl (ValueError (header_not_found nm))"
proof
  assume a: "read_wos_exports fld rename = Inl (ValueError (header_not_found nm))"
  show False
  proof (cases "listing fld")
    case None
    with a show False by (simp add: read_wos_exports_def read_wos_exports_with_def)
  next
    case (Some entries)
    show False
    proof (cases "glob_txt entries = []")
      case True
      with a Some show False by (simp add: read_wos_exports_def read_wos_exports_with_def)
    next
      case False
      from a have "load_frames_with read_csv (folder_str fld) (sort_key entry_name (glob_txt entries))
          = Inl (ValueError (header_not_found nm))"
        unfolding read_wos_exports_def by (simp add: read_wos_exports_with_Inl[OF Some False])
      then obtain path e where "read_csv path e = Inl (ValueError (header_not_found nm))"
        unfolding load_frames_with_Inl by blast
      then show False
        by (cases e) (auto simp: read_csv_def dest: parse_table_error)
    qed
  qed
qed

text \<open>
  C2, as stated, fails: on a file without any marker line the header locator raises, yet
  \<^verbatim>\<open>read_wos_exports\<close> returns a table, so the locator's result is not computed there;
  and a file that starts with a blank line gets its labels from its second line.
\<close>

theorem header_locator_not_run_counterexample:
  "find_header_line \<lparr>file_name = ''a.txt'',
        file_lines = [''AU'' @ [TAB] @ ''TI'', ''Doe'' @ [TAB] @ ''T1'']\<rparr>
     = Inl (ValueError (header_not_found ''a.txt''))
   \<and> read_wos_exports
       \<lparr>folder_str = ''/data'', resolved = ''/data'',
        listing = Some [TextFile \<lparr>file_name = ''a.txt'',
                           file_lines = [''AU'' @ [TAB] @ ''TI'', ''Doe'' @ [TAB] @ ''T1'']\<rparr>]\<rparr>
       RENAME_MAP
     = Inr \<lparr>nrows = 1, cols = [(''Author'', [Str ''Doe'']), (''Title'', [Str ''T1''])]\<rparr>
   \<and> read_wos_exports
       \<lparr>folder_str = ''/data'', resolved = ''/data'',
        listing = Some [TextFile \<lparr>file_name = ''b.txt'',
                           file_lines = ['''', ''AU'' @ [TAB] @ ''TI'', ''Doe'' @ [TAB] @ ''T1'']\<rparr>]\<rparr>
       RENAME_MAP
     = Inr \<lparr>nrows = 1, cols = [(''Author'', [Str ''Doe'']), (''Title'', [Str ''T1''])]\<rparr>"
  by code_simp

text \<open>
  C2, amended: \<^verbatim>\<open>read_wos_exports\<close> does not call the header locator, and never raises its
  error, whatever the files hold. For every plain file (no quote character, unique and
  non-empty labels, no record longer than the header) the labels of the loaded table are
  the tab-separated fields of the first line that is not blank, a byte-order mark at the
  start of the file dropped, and every later such line is a row; that line is the file's
  first line when this one is not blank and has no byte-order mark. A directory whose
  matching entries are all plain files is loaded so, file by file in sorted order, and a
  table is returned. Nothing depends on where, or whether, a marker line occurs.
\<close>

theorem header_is_first_unskipped_line:
  "(\<forall>nm. read_wos_exports fld rename \<noteq> Inl (ValueError (header_not_found nm)))
   \<and> (plain_file f
       \<longrightarrow> (\<exists>frame h rest.
              read_csv path (TextFile f) = Inr frame \<and>
              unskipped_lines f = h # rest \<and>
              columns frame = split_on TAB h \<and> nrows frame = length rest \<and>
              (\<forall>l ls. file_lines f = l # ls \<and> \<not> startswith l BOM \<and> \<not> blank_line l
                       \<longrightarrow> h = l)))
   \<and> (listing fld = Some entries \<and> glob_txt entries \<noteq> [] \<and>
       (\<forall>e\<in>set (glob_txt entries). \<exists>g. e = TextFile g \<and> plain_file g)
       \<longrightarrow> (\<exists>frames out.
              load_frames_with read_csv (folder_str fld) (sort_key entry_name (glob_txt entries))
                = Inr frames \<and>
              read_wos_exports fld rename = Inr out \<and>
              (\<forall>k<length (glob_txt entries). \<exists>g frame h rest.
                 sort_key entry_name (glob_txt entries) ! k = TextFile g \<and>
                 unskipped_lines g = h # rest \<and>
                 columns frame = split_on TAB h \<and> nrows frame = length rest \<and>
                 frames ! k = repair_pt_au frame)))"
proof -
  have A: "read_wos_exports fld rename \<noteq> Inl (ValueError (header_not_found nm))" for nm
    by (rule read_wos_exports_no_header_error)
  have C: "\<exists>frame h rest.
              read_csv path (TextFile f) = Inr frame \<and>
              unskipped_lines f = h # rest \<and>
              columns frame = split_on TAB h \<and> nrows frame = length rest \<and>
              (\<forall>l ls. file_lines f = l # ls \<and> \<not> startswith l BOM \<and> \<not> blank_line l
                       \<longrightarrow> h = l)"
    if "plain_file f"
  proof -
    from that obtain frame where fr: "parse_table f = Inr frame"
      by (auto simp: plain_file_parse_table)
    from parse_table_columns[OF fr] obtain h rest where
      b: "unskipped_lines f = h # rest" "columns frame = split_on TAB h"
        "nrows frame = length rest" by blast
    have "h = l" if "file_lines f = l # ls" "\<not> startswith l BOM" "\<not> blank_line l" for l ls
      using b(1) that by (simp add: unskipped_lines_def drop_bom_def)
    with fr b show ?thesis by (auto simp: read_csv_def)
  qed
  have B: "\<exists>frames out.
              load_frames_with read_csv (folder_str fld) (sort_key entry_name (glob_txt entries))
                = Inr frames \<and>
              read_wos_exports fld rename = Inr out \<and>
              (\<forall>k<length (glob_txt entries). \<exists>g frame h rest.
                 sort_key entry_name (glob_txt entries) ! k = TextFile g \<and>
                 unskipped_lines g = h # rest \<and>
                 columns frame = split_on TAB h \<and> nrows frame = length rest \<and>
                 frames ! k = repair_pt_au frame)"
    if l: "listing fld = Some entries" and ne: "glob_txt entries \<noteq> []"
      and pl: "\<forall>e\<in>set (glob_txt entries). \<exists>g. e = TextFile g \<and> plain_file g"
  proof -
    let ?fs = "sort_key entry_name (glob_txt entries)"
    have len: "length ?fs = length (glob_txt entries)" by simp
    have ok: "\<exists>g frame. ?fs ! k = TextFile g \<and> parse_table g = Inr frame \<and>
                read_csv p (?fs ! k) = Inr frame" if "k < length ?fs" for k p
    proof -
      from that have "?fs ! k \<in> set ?fs" by (rule nth_mem)
      then have "?fs ! k \<in> set (glob_txt entries)" by simp
      with pl obtain g where g: "?fs ! k = TextFile g" "plain_file g" by blast
      then obtain frame where "parse_table g = Inr frame"
        by (auto simp: plain_file_parse_table)
      with g show ?thesis by (auto simp: read_csv_def)
    qed
    obtain frames where lf: "load_frames_with read_csv (folder_str fld) ?fs = Inr frames"
    proof (cases "load_frames_with read_csv (folder_str fld) ?fs")
      case (Inl e)
      then obtain k where "k < length ?fs"
        "read_csv (entry_path (folder_str fld) (entry_name (?fs ! k))) (?fs ! k) = Inl e"
        unfolding load_frames_with_Inl by blast
      with ok[of k "entry_path (folder_str fld) (entry_name (?fs ! k))"]
      have False by auto
      then show ?thesis ..
    next
      case (Inr frames)
      with that show ?thesis .
    qed
    from lf have lenf: "length frames = length ?fs" by (simp add: load_frames_with_Inr)
    with ne have "frames \<noteq> []" by auto
    from read_wos_exports_with_loaded[OF l lf this, of rename] obtain out where
      out: "read_wos_exports fld rename = Inr out" by (auto simp: read_wos_exports_def)
    have "\<exists>g frame h rest. ?fs ! k = TextFile g \<and> unskipped_lines g = h # rest \<and>
            columns frame = split_on TAB h \<and> nrows frame = length rest \<and>
            frames ! k = repair_pt_au frame" if k: "k < length (glob_txt entries)" for k
    proof -
      from k have k': "k < length ?fs" by simp
      with load_frames_with_Inr[OF lf] obtain frame where
        fr: "read_csv (entry_path (folder_str fld) (entry_name (?fs ! k))) (?fs ! k) = Inr frame"
        "frames ! k = repair_pt_au frame" by blast
      from fr(1) obtain g where g: "?fs ! k = TextFile g" "parse_table g = Inr frame"
        unfolding read_csv_Inr by blast
      from parse_table_columns[OF g(2)] obtain h rest where
        "unskipped_lines g = h # rest" "columns frame = split_on TAB h"
        "nrows frame = length rest" by blast
      with g(1) fr(2) show ?thesis by blast
    qed
    with lf out show ?thesis by blast
  qed
  from A B C show ?thesis by blast
qed

theorem header_is_first_unskipped_line_witness:
  "find_header_line \<lparr>file_name = ''a.txt'',
        file_lines = [''FN'' @ [TAB] @ ''VR'', ''PT'' @ [TAB] @ ''AU'', ''J'' @ [TAB] @ ''Doe'']\<rparr> = Inr 1
   \<and> plain_file \<lparr>file_name = ''a.txt'',
        file_lines = [''FN'' @ [TAB] @ ''VR'', ''PT'' @ [TAB] @ ''AU'', ''J'' @ [TAB] @ ''Doe'']\<rparr>
   \<and> (\<exists>frame. read_csv ''/data/a.txt'' (TextFile \<lparr>file_name = ''a.txt'',
        file_lines = [''FN'' @ [TAB] @ ''VR'', ''PT'' @ [TAB] @ ''AU'', ''J'' @ [TAB] @ ''Doe'']\<rparr>)
          = Inr frame
        \<and> columns frame = [''FN'', ''VR''] \<and> nrows frame = 2)"
proof -
  let ?f = "\<lparr>file_name = ''a.txt'',
        file_lines = [''FN'' @ [TAB] @ ''VR'', ''PT'' @ [TAB] @ ''AU'', ''J'' @ [TAB] @ ''Doe'']\<rparr>"
  have h0: "find_header_line ?f = Inr 1" by code_simp
  have pl: "plain_file ?f" by code_simp
  have sp: "split_on TAB (''FN'' @ [TAB] @ ''VR'') = [''FN'', ''VR'']" by code_simp
  have nb: "\<not> startswith (''FN'' @ [TAB] @ ''VR'') BOM \<and> \<not> blank_line (''FN'' @ [TAB] @ ''VR'')"
    by code_simp
  have un: "unskipped_lines ?f = file_lines ?f" by code_simp
  let ?fld = "\<lparr>folder_str = ''/data'', resolved = ''/data'', listing = Some [TextFile ?f]\<rparr>"
  have "plain_file ?f \<longrightarrow> (\<exists>frame h rest.
              read_csv ''/data/a.txt'' (TextFile ?f) = Inr frame \<and>
              unskipped_lines ?f = h # rest \<and>
              columns frame = split_on TAB h \<and> nrows frame = length rest \<and>
              (\<forall>l ls. file_lines ?f = l # ls \<and> \<not> startswith l BOM \<and> \<not> blank_line l
                       \<longrightarrow> h = l))"
    using header_is_first_unskipped_line[of ?fld RENAME_MAP ?f "''/data/a.txt''" "[]"]
    by (elim conjE)
  with pl obtain frame h rest where
    fr: "read_csv ''/data/a.txt'' (TextFile ?f) = Inr frame" "columns frame = split_on TAB h"
    "nrows frame = length rest" "unskipped_lines ?f = h # rest"
    "\<forall>l ls. file_lines ?f = l # ls \<and> \<not> startswith l BOM \<and> \<not> blank_line l \<longrightarrow> h = l"
    by blast
  from fr(5) nb have h: "h = ''FN'' @ [TAB] @ ''VR''" by simp
  from fr(4) h have "length rest = 2" unfolding un by auto
  with fr h sp h0 pl show ?thesis by simp
qed

end
